theory Spec2Isabelle
  imports Main
begin

section \<open>Python values\<close>

text \<open>
  A Python \<^verbatim>\<open>str\<close> is a sequence of Unicode code points; a code point is a natural
  number. \<open>py ''help''\<close> is the \<^verbatim>\<open>str\<close> literal \<^verbatim>\<open>'help'\<close>.
\<close>

type_synonym pystr = "nat list"

definition py :: "string \<Rightarrow> pystr" where
  "py s = map of_char s"

text \<open>
  \<^verbatim>\<open>
  class Qualifiers(Enum):
      OPTIONAL = auto()
      ZERO_OR_MORE = auto()
      SUPPRESS = auto()
  \<close>
\<close>

datatype Qualifiers = OPTIONAL | ZERO_OR_MORE | SUPPRESS

text \<open>
  The values a configuration (\<^verbatim>\<open>Dict[str, Any]\<close>) holds and a serialized document is
  built from. A dictionary keeps its items in insertion order, so it is an association
  list; its keys are distinct in every dictionary Python can build. \<open>PFunction\<close> and
  \<open>PClass\<close> are the values that expose \<^verbatim>\<open>__name__\<close> (a converter such as
  \<^verbatim>\<open>int\<close> or a plain function); \<open>PInstance c\<close> is an instance of a user class named
  \<open>c\<close> with the default equality, hash and truth value and no \<^verbatim>\<open>__name__\<close>.
\<close>

datatype pyval =
    PNone
  | PBool bool
  | PInt int
  | PStr pystr
  | PQual Qualifiers
  | PList "pyval list"
  | PDict "(pystr \<times> pyval) list"
  | PFunction pystr
  | PClass pystr
  | PInstance pystr

type_synonym dict = "(pystr \<times> pyval) list"

datatype error =
    KeyError pyval
  | TypeError
  | AttributeError
  | IndexError
  | ResolutionError
  | SpecificationError pystr

subsection \<open>Dictionary operations\<close>

text \<open>\<^verbatim>\<open>d.get(k)\<close>: \<open>None\<close> stands for the missing key.\<close>

definition dict_get :: "dict \<Rightarrow> pystr \<Rightarrow> pyval option" where
  "dict_get d k = map_of d k"

text \<open>\<^verbatim>\<open>d[k] = v\<close>: an existing key keeps its place, a new key goes last.\<close>

fun dict_set :: "dict \<Rightarrow> pystr \<Rightarrow> pyval \<Rightarrow> dict" where
  "dict_set [] k v = [(k, v)]"
| "dict_set ((k', v') # d) k v =
     (if k' = k then (k', v) # d else (k', v') # dict_set d k v)"

text \<open>\<^verbatim>\<open>d.update(e)\<close>: the items of \<open>e\<close> are stored one after the other.\<close>

definition dict_update :: "dict \<Rightarrow> dict \<Rightarrow> dict" where
  "dict_update d e = fold (\<lambda>(k, v) acc. dict_set acc k v) e d"

text \<open>\<^verbatim>\<open>d.pop(k, default)\<close>: the value popped and the dictionary left.\<close>

definition dict_pop :: "dict \<Rightarrow> pystr \<Rightarrow> pyval \<Rightarrow> pyval \<times> dict" where
  "dict_pop d k dflt =
     (case map_of d k of
        None \<Rightarrow> (dflt, d)
      | Some v \<Rightarrow> (v, filter (\<lambda>(k', _). k' \<noteq> k) d))"

subsection \<open>Truth values, hashing, names\<close>

text \<open>\<^verbatim>\<open>bool(v)\<close>, as \<^verbatim>\<open>if v\<close> tests it.\<close>

fun truthy :: "pyval \<Rightarrow> bool" where
  "truthy PNone = False"
| "truthy (PBool b) = b"
| "truthy (PInt i) = (i \<noteq> 0)"
| "truthy (PStr s) = (s \<noteq> [])"
| "truthy (PList xs) = (xs \<noteq> [])"
| "truthy (PDict d) = (d \<noteq> [])"
| "truthy (PQual q) = True"
| "truthy (PFunction n) = True"
| "truthy (PClass n) = True"
| "truthy (PInstance c) = True"

text \<open>Lists and dictionaries are unhashable: using one as a key raises \<^verbatim>\<open>TypeError\<close>.\<close>

fun hashable :: "pyval \<Rightarrow> bool" where
  "hashable (PList xs) = False"
| "hashable (PDict d) = False"
| "hashable v = True"

text \<open>\<^verbatim>\<open>hasattr(v, '__name__')\<close>\<close>

fun has_name :: "pyval \<Rightarrow> bool" where
  "has_name (PFunction n) = True"
| "has_name (PClass n) = True"
| "has_name v = False"

text \<open>\<^verbatim>\<open>v.__name__\<close>, for a value that has one.\<close>

fun name_of :: "pyval \<Rightarrow> pystr" where
  "name_of (PFunction n) = n"
| "name_of (PClass n) = n"
| "name_of v = []"

text \<open>\<^verbatim>\<open>type(v).__name__\<close>\<close>

fun class_name :: "pyval \<Rightarrow> pystr" where
  "class_name PNone = py ''NoneType''"
| "class_name (PBool b) = py ''bool''"
| "class_name (PInt i) = py ''int''"
| "class_name (PStr s) = py ''str''"
| "class_name (PQual q) = py ''Qualifiers''"
| "class_name (PList xs) = py ''list''"
| "class_name (PDict d) = py ''dict''"
| "class_name (PFunction n) = py ''function''"
| "class_name (PClass n) = py ''type''"
| "class_name (PInstance c) = c"

subsection \<open>String methods\<close>

text \<open>
  \<^verbatim>\<open>str.isspace\<close> on one code point: the ASCII whitespace 9-13, 28-32 and the Unicode
  whitespace U+0085, U+00A0, U+1680, U+2000-U+200A, U+2028, U+2029, U+202F, U+205F,
  U+3000.
\<close>

definition isspace :: "nat \<Rightarrow> bool" where
  "isspace c =
     ((9 \<le> c \<and> c \<le> 13) \<or> (28 \<le> c \<and> c \<le> 32) \<or> c = 133 \<or> c = 160 \<or> c = 5760
      \<or> (8192 \<le> c \<and> c \<le> 8202) \<or> c = 8232 \<or> c = 8233 \<or> c = 8239 \<or> c = 8287
      \<or> c = 12288)"

text \<open>\<^verbatim>\<open>s.strip()\<close>: leading and trailing whitespace removed.\<close>

definition strip :: "pystr \<Rightarrow> pystr" where
  "strip s = rev (dropWhile isspace (rev (dropWhile isspace s)))"

text \<open>
  The line boundaries of \<^verbatim>\<open>str.splitlines\<close>: LF, VT, FF, CR, FS, GS, RS, NEL, U+2028,
  U+2029; CR LF is one boundary.
\<close>

definition islinebreak :: "nat \<Rightarrow> bool" where
  "islinebreak c =
     ((10 \<le> c \<and> c \<le> 13) \<or> (28 \<le> c \<and> c \<le> 30) \<or> c = 133 \<or> c = 8232 \<or> c = 8233)"

text \<open>
  \<^verbatim>\<open>s.splitlines()\<close>, reading \<open>s\<close> from the left with the current line in \<open>line\<close>: a
  boundary closes the line, and the end of the string closes a line that is not empty.
\<close>

fun splitlines_from :: "pystr \<Rightarrow> pystr \<Rightarrow> pystr list" where
  "splitlines_from line [] = (if line = [] then [] else [line])"
| "splitlines_from line (c # cs) =
     (if islinebreak c
      then line # splitlines_from []
             (if c = 13 \<and> cs \<noteq> [] \<and> hd cs = 10 then tl cs else cs)
      else splitlines_from (line @ [c]) cs)"

definition splitlines :: "pystr \<Rightarrow> pystr list" where
  "splitlines s = splitlines_from [] s"

section \<open>The qualifier model\<close>

text \<open>
  \<^verbatim>\<open>
  def map_qualifiers(configuration, qualifier_map):
      return {
          key: qualifier_map[value] if isinstance(value, Qualifiers) else value
          for key, value in configuration.items()
      }
  \<close>
  The comprehension visits the items in order; \<^verbatim>\<open>qualifier_map[value]\<close> raises
  \<^verbatim>\<open>KeyError(value)\<close> at the first qualifier the map has no entry for.
\<close>

definition map_qualifier :: "(Qualifiers \<rightharpoonup> pyval) \<Rightarrow> pyval \<Rightarrow> error + pyval" where
  "map_qualifier qualifier_map v =
     (case v of
        PQual q \<Rightarrow>
          (case qualifier_map q of None \<Rightarrow> Inl (KeyError (PQual q)) | Some t \<Rightarrow> Inr t)
      | _ \<Rightarrow> Inr v)"

fun map_qualifiers :: "dict \<Rightarrow> (Qualifiers \<rightharpoonup> pyval) \<Rightarrow> error + dict" where
  "map_qualifiers [] qualifier_map = Inr []"
| "map_qualifiers ((k, v) # items) qualifier_map =
     (case map_qualifier qualifier_map v of
        Inl e \<Rightarrow> Inl e
      | Inr v' \<Rightarrow>
          (case map_qualifiers items qualifier_map of
             Inl e \<Rightarrow> Inl e
           | Inr rest \<Rightarrow> Inr ((k, v') # rest)))"

section \<open>Arguments and their schema entries\<close>

text \<open>
  \<^verbatim>\<open>
  class Argument(typing.NamedTuple):
      aliases: List[str]
      configuration: Dict[str]
  \<close>
\<close>

record Argument =
  aliases :: "pystr list"
  configuration :: dict

text \<open>
  \<^verbatim>\<open>LazyChoices\<close> comes from \<^verbatim>\<open>httpie.cli.utils\<close> and is a parameter of the model:
  the constructor takes the aliases and the keyword arguments and may raise; of the
  object it builds, \<open>lc_load\<close> is \<^verbatim>\<open>list(choices.load())\<close> and \<open>lc_help\<close> is
  \<^verbatim>\<open>choices.help\<close>, each a value or the error raised.
\<close>

record LazyChoices =
  lc_load :: "error + pyval list"
  lc_help :: "error + pyval"

type_synonym lazy_choices_class = "pystr list \<Rightarrow> dict \<Rightarrow> error + LazyChoices"

text \<open>
  \<^verbatim>\<open>
  JSON_DIRECT_MIRROR_OPTIONS = ('choices', 'metavar')
  JSON_QUALIFIER_TO_OPTIONS = {
      Qualifiers.OPTIONAL: {"is_optional": True},
      Qualifiers.ZERO_OR_MORE: {"is_optional": True, "is_variadic": True},
      Qualifiers.SUPPRESS: {}
  }
  \<close>
\<close>

definition JSON_DIRECT_MIRROR_OPTIONS :: "pystr list" where
  "JSON_DIRECT_MIRROR_OPTIONS = [py ''choices'', py ''metavar'']"

fun JSON_QUALIFIER_TO_OPTIONS :: "Qualifiers \<Rightarrow> dict" where
  "JSON_QUALIFIER_TO_OPTIONS OPTIONAL = [(py ''is_optional'', PBool True)]"
| "JSON_QUALIFIER_TO_OPTIONS ZERO_OR_MORE =
     [(py ''is_optional'', PBool True), (py ''is_variadic'', PBool True)]"
| "JSON_QUALIFIER_TO_OPTIONS SUPPRESS = []"

text \<open>
  \<^verbatim>\<open>JSON_QUALIFIER_TO_OPTIONS[v]\<close> for any value \<open>v\<close>: the keys of the table are the
  three members, so every other hashable value raises \<^verbatim>\<open>KeyError(v)\<close>, and an
  unhashable one raises \<^verbatim>\<open>TypeError\<close>.
\<close>

definition qualifier_options :: "pyval \<Rightarrow> error + dict" where
  "qualifier_options v =
     (if \<not> hashable v then Inl TypeError
      else case v of PQual q \<Rightarrow> Inr (JSON_QUALIFIER_TO_OPTIONS q) | _ \<Rightarrow> Inl (KeyError v))"

text \<open>
  \<^verbatim>\<open>
  configuration = self.configuration.copy()
  action = configuration.pop('action', None)
  if action == 'lazy_choices':
      choices = LazyChoices(self.aliases, **{'dest': None, **configuration})
      configuration['choices'] = list(choices.load())
      configuration['help'] = choices.help
  \<close>
\<close>

definition lazy_configuration :: "lazy_choices_class \<Rightarrow> Argument \<Rightarrow> error + dict" where
  "lazy_configuration LC a =
     (let (action, cfg) = dict_pop (configuration a) (py ''action'') PNone in
      if action = PStr (py ''lazy_choices'')
      then (case LC (aliases a) (dict_update [(py ''dest'', PNone)] cfg) of
              Inl e \<Rightarrow> Inl e
            | Inr choices \<Rightarrow>
                (case lc_load choices of
                   Inl e \<Rightarrow> Inl e
                 | Inr loaded \<Rightarrow>
                     (case lc_help choices of
                        Inl e \<Rightarrow> Inl e
                      | Inr h \<Rightarrow>
                          Inr (dict_set (dict_set cfg (py ''choices'') (PList loaded))
                                 (py ''help'') h))))
      else Inr cfg)"

text \<open>
  \<^verbatim>\<open>
  result = {}
  if self.aliases:
      result['options'] = self.aliases.copy()
  else:
      result['options'] = configuration["metavar"]
      result['is_positional'] = True
  \<close>
\<close>

definition options_fields :: "Argument \<Rightarrow> dict \<Rightarrow> error + dict" where
  "options_fields a cfg =
     (if aliases a \<noteq> []
      then Inr (dict_set [] (py ''options'') (PList (map PStr (aliases a))))
      else (case dict_get cfg (py ''metavar'') of
              None \<Rightarrow> Inl (KeyError (PStr (py ''metavar'')))
            | Some m \<Rightarrow>
                Inr (dict_set (dict_set [] (py ''options'') m)
                       (py ''is_positional'') (PBool True))))"

text \<open>
  \<^verbatim>\<open>
  help_msg = configuration.get('help')
  if help_msg and help_msg is not Qualifiers.SUPPRESS:
      result['description'] = help_msg.strip().splitlines()[0]
  \<close>
  \<^verbatim>\<open>configuration.get('help')\<close> is \<^verbatim>\<open>None\<close> for a missing key. Only a \<^verbatim>\<open>str\<close> has
  \<^verbatim>\<open>strip\<close> (\<^verbatim>\<open>AttributeError\<close> otherwise), and \<^verbatim>\<open>[0]\<close> of an empty list raises
  \<^verbatim>\<open>IndexError\<close>.
\<close>

definition first_help_line :: "pyval \<Rightarrow> error + pyval" where
  "first_help_line help_msg =
     (case help_msg of
        PStr s \<Rightarrow>
          (case splitlines (strip s) of
             [] \<Rightarrow> Inl IndexError
           | l # ls \<Rightarrow> Inr (PStr l))
      | _ \<Rightarrow> Inl AttributeError)"

definition description_field :: "dict \<Rightarrow> dict \<Rightarrow> error + dict" where
  "description_field cfg result =
     (let help_msg = (case dict_get cfg (py ''help'') of None \<Rightarrow> PNone | Some h \<Rightarrow> h) in
      if truthy help_msg \<and> help_msg \<noteq> PQual SUPPRESS
      then (case first_help_line help_msg of
              Inl e \<Rightarrow> Inl e
            | Inr l \<Rightarrow> Inr (dict_set result (py ''description'') l))
      else Inr result)"

text \<open>
  \<^verbatim>\<open>
  python_type = configuration.get('type')
  if python_type is not None:
      if hasattr(python_type, '__name__'):
          type_name = python_type.__name__
      else:
          type_name = type(python_type).__name__
      result['python_type_name'] = type_name
  \<close>
\<close>

definition type_field :: "dict \<Rightarrow> dict \<Rightarrow> dict" where
  "type_field cfg result =
     (case dict_get cfg (py ''type'') of
        None \<Rightarrow> result
      | Some python_type \<Rightarrow>
          if python_type \<noteq> PNone
          then dict_set result (py ''python_type_name'')
                 (PStr (if has_name python_type then name_of python_type
                        else class_name python_type))
          else result)"

text \<open>
  \<^verbatim>\<open>
  result.update({
      key: value
      for key, value in configuration.items()
      if key in JSON_DIRECT_MIRROR_OPTIONS
  })
  \<close>
\<close>

definition mirror_fields :: "dict \<Rightarrow> dict \<Rightarrow> dict" where
  "mirror_fields cfg result =
     dict_update result (filter (\<lambda>(key, value). key \<in> set JSON_DIRECT_MIRROR_OPTIONS) cfg)"

text \<open>
  \<^verbatim>\<open>Argument.serialize\<close>: the steps above in the order of the source, with
  \<^verbatim>\<open>qualifiers = JSON_QUALIFIER_TO_OPTIONS[configuration.get('nargs', Qualifiers.SUPPRESS)]\<close>
  and \<^verbatim>\<open>result.update(qualifiers)\<close> between the options and the description.
\<close>

definition serialize :: "lazy_choices_class \<Rightarrow> Argument \<Rightarrow> error + dict" where
  "serialize LC a =
     (case lazy_configuration LC a of
        Inl e \<Rightarrow> Inl e
      | Inr cfg \<Rightarrow>
     (case options_fields a cfg of
        Inl e \<Rightarrow> Inl e
      | Inr result \<Rightarrow>
     (case qualifier_options
             (case dict_get cfg (py ''nargs'') of None \<Rightarrow> PQual SUPPRESS | Some v \<Rightarrow> v) of
        Inl e \<Rightarrow> Inl e
      | Inr qualifiers \<Rightarrow>
     (case description_field cfg (dict_update result qualifiers) of
        Inl e \<Rightarrow> Inl e
      | Inr result' \<Rightarrow> Inr (mirror_fields cfg (type_field cfg result'))))))"

section \<open>Groups and the parser specification\<close>

text \<open>
  \<^verbatim>\<open>
  @dataclass
  class Group:
      name: str
      description: str = ''
      is_mutually_exclusive: bool = False
      arguments: List[Argument] = field(default_factory=list)

  @dataclass
  class ParserSpec:
      program: str
      description: str
      epilog: str
      groups: List[Group] = field(default_factory=list)
  \<close>
\<close>

record Group =
  name :: pystr
  description :: pystr
  is_mutually_exclusive :: bool
  arguments :: "Argument list"

record ParserSpec =
  program :: pystr
  spec_description :: pystr
  epilog :: pystr
  groups :: "Group list"

text \<open>
  \<^verbatim>\<open>
  def new_group(self, name, **kwargs):
      group = Group(name, **kwargs)
      self.groups.append(group)
      return group

  def add_argument(self, *args, **kwargs):
      argument = Argument(list(args), kwargs.copy())
      self.arguments.append(argument)
      return argument
  \<close>
  Both mutate their receiver; the model returns the receiver after the call. The group
  \<^verbatim>\<open>new_group\<close> returns is the object it appended, the last of \<^verbatim>\<open>self.groups\<close>, so a
  later \<^verbatim>\<open>add_argument\<close> on it changes the group inside the specification:
  \<open>add_argument_to spec i\<close> is \<^verbatim>\<open>spec.groups[i].add_argument(...)\<close> for an index
  \<open>i\<close> counted from the front, which raises \<^verbatim>\<open>IndexError\<close> out of range.
\<close>

definition new_group :: "ParserSpec \<Rightarrow> pystr \<Rightarrow> pystr \<Rightarrow> bool \<Rightarrow> ParserSpec" where
  "new_group spec n d m =
     spec\<lparr>groups := groups spec @
       [\<lparr>name = n, description = d, is_mutually_exclusive = m, arguments = []\<rparr>]\<rparr>"

definition add_argument :: "Group \<Rightarrow> pystr list \<Rightarrow> dict \<Rightarrow> Group" where
  "add_argument g args kwargs =
     g\<lparr>arguments := arguments g @ [\<lparr>aliases = args, configuration = kwargs\<rparr>]\<rparr>"

definition add_argument_to ::
  "ParserSpec \<Rightarrow> nat \<Rightarrow> pystr list \<Rightarrow> dict \<Rightarrow> error + ParserSpec" where
  "add_argument_to spec i args kwargs =
     (if i < length (groups spec)
      then Inr (spec\<lparr>groups := (groups spec)[i := add_argument (groups spec ! i) args kwargs]\<rparr>)
      else Inl IndexError)"

subsection \<open>The schema compiler\<close>

text \<open>
  \<^verbatim>\<open>[argument.serialize() for argument in self.arguments]\<close>: the entries in the order of
  the arguments, or the first error raised.
\<close>

fun serialize_arguments :: "lazy_choices_class \<Rightarrow> Argument list \<Rightarrow> error + pyval list" where
  "serialize_arguments LC [] = Inr []"
| "serialize_arguments LC (a # as) =
     (case serialize LC a of
        Inl e \<Rightarrow> Inl e
      | Inr d \<Rightarrow>
          (case serialize_arguments LC as of
             Inl e \<Rightarrow> Inl e
           | Inr ds \<Rightarrow> Inr (PDict d # ds)))"

text \<open>
  \<^verbatim>\<open>
  def serialize(self):           # Group
      return {
          'name': self.name,
          'description': self.description,
          'is_mutually_exclusive': self.is_mutually_exclusive,
          'args': [argument.serialize() for argument in self.arguments],
      }
  \<close>
\<close>

definition Group_serialize :: "lazy_choices_class \<Rightarrow> Group \<Rightarrow> error + dict" where
  "Group_serialize LC g =
     (case serialize_arguments LC (arguments g) of
        Inl e \<Rightarrow> Inl e
      | Inr args \<Rightarrow>
          Inr [(py ''name'', PStr (name g)),
               (py ''description'', PStr (description g)),
               (py ''is_mutually_exclusive'', PBool (is_mutually_exclusive g)),
               (py ''args'', PList args)])"

text \<open>\<^verbatim>\<open>[group.serialize() for group in self.groups]\<close>\<close>

fun serialize_groups :: "lazy_choices_class \<Rightarrow> Group list \<Rightarrow> error + pyval list" where
  "serialize_groups LC [] = Inr []"
| "serialize_groups LC (g # gs) =
     (case Group_serialize LC g of
        Inl e \<Rightarrow> Inl e
      | Inr d \<Rightarrow>
          (case serialize_groups LC gs of
             Inl e \<Rightarrow> Inl e
           | Inr ds \<Rightarrow> Inr (PDict d # ds)))"

text \<open>
  \<^verbatim>\<open>
  def serialize(self):           # ParserSpec
      return {
          'name': self.program,
          'description': self.description,
          'groups': [group.serialize() for group in self.groups],
      }

  PARSER_SPEC_VERSION = '1.0.0'

  def to_json(abstract_options):
      return {'version': PARSER_SPEC_VERSION, 'spec': abstract_options.serialize()}
  \<close>
\<close>

definition ParserSpec_serialize :: "lazy_choices_class \<Rightarrow> ParserSpec \<Rightarrow> error + dict" where
  "ParserSpec_serialize LC spec =
     (case serialize_groups LC (groups spec) of
        Inl e \<Rightarrow> Inl e
      | Inr gs \<Rightarrow>
          Inr [(py ''name'', PStr (program spec)),
               (py ''description'', PStr (spec_description spec)),
               (py ''groups'', PList gs)])"

definition PARSER_SPEC_VERSION :: pystr where
  "PARSER_SPEC_VERSION = py ''1.0.0''"

definition to_json :: "lazy_choices_class \<Rightarrow> ParserSpec \<Rightarrow> error + dict" where
  "to_json LC abstract_options =
     (case ParserSpec_serialize LC abstract_options of
        Inl e \<Rightarrow> Inl e
      | Inr s \<Rightarrow> Inr [(py ''version'', PStr PARSER_SPEC_VERSION), (py ''spec'', PDict s)])"

subsection \<open>The concrete parser\<close>

text \<open>
  Modelled from the spec: the concrete parser library behind \<^verbatim>\<open>to_argparse\<close>
  (\<^verbatim>\<open>HTTPieArgumentParser\<close> of \<^verbatim>\<open>httpie.cli.argparser\<close>, built on \<^verbatim>\<open>argparse\<close>), which is not
  among the sources. The spec gives its interface as create-parser(program,
  description, epilog), add-named-argument-group(title, description),
  add-mutually-exclusive-subgroup(required) and add-argument(aliases, configuration).
  A concrete group records its title, its description, whether it is wrapped in a
  mutual-exclusion construct (and with which \<^verbatim>\<open>required\<close>) and its arguments in the
  order they were added.
\<close>

record concrete_argument =
  option_strings :: "pystr list"
  settings :: dict

record concrete_group =
  title :: pystr
  group_description :: pystr
  exclusive :: "bool option"
  actions :: "concrete_argument list"

record concrete_parser =
  prog :: pystr
  parser_description :: pystr
  parser_epilog :: pystr
  registry :: "(pystr \<times> pystr) list"
  argument_groups :: "concrete_group list"

text \<open>Modelled from the spec: create-parser(program, description, epilog).\<close>

definition create_parser :: "pystr \<Rightarrow> pystr \<Rightarrow> pystr \<Rightarrow> concrete_parser" where
  "create_parser p d e =
     \<lparr>prog = p, parser_description = d, parser_epilog = e, registry = [],
      argument_groups = []\<rparr>"

text \<open>
  Modelled from the spec: \<^verbatim>\<open>register(kind, name, object)\<close> of the parser library, which
  makes \<open>name\<close> known as a value of \<open>kind\<close>.
\<close>

definition register :: "concrete_parser \<Rightarrow> pystr \<Rightarrow> pystr \<Rightarrow> concrete_parser" where
  "register p kind n = p\<lparr>registry := registry p @ [(kind, n)]\<rparr>"

text \<open>
  Modelled from the spec: add-named-argument-group(title, description). The new group
  is the last one, and it is the group the calls that follow work on.
\<close>

definition add_argument_group :: "concrete_parser \<Rightarrow> pystr \<Rightarrow> pystr \<Rightarrow> concrete_parser" where
  "add_argument_group p t d =
     p\<lparr>argument_groups := argument_groups p @
       [\<lparr>title = t, group_description = d, exclusive = None, actions = []\<rparr>]\<rparr>"

text \<open>
  Modelled from the spec: add-mutually-exclusive-subgroup(required), called on the
  group just created: its arguments go into a nested mutual-exclusion construct.
\<close>

definition add_mutually_exclusive_group :: "concrete_parser \<Rightarrow> bool \<Rightarrow> concrete_parser" where
  "add_mutually_exclusive_group p required =
     p\<lparr>argument_groups :=
         butlast (argument_groups p) @
         [(last (argument_groups p))\<lparr>exclusive := Some required\<rparr>]\<rparr>"

text \<open>Every alias registered so far, in any group of the parser.\<close>

definition registered :: "concrete_parser \<Rightarrow> pystr list" where
  "registered p = concat (map option_strings (concat (map actions (argument_groups p))))"

text \<open>
  Modelled from the spec: add-argument(aliases, configuration) on the current group.
  ``Registering two arguments with a colliding alias is a construction-time error and
  must abort interface construction'': an alias that is already registered raises
  \<open>SpecificationError\<close>; otherwise the argument goes last in the current group.
\<close>

definition parser_add_argument ::
  "concrete_parser \<Rightarrow> pystr list \<Rightarrow> dict \<Rightarrow> error + concrete_parser" where
  "parser_add_argument p als cfg =
     (case filter (\<lambda>s. s \<in> set (registered p)) als of
        s # ss \<Rightarrow> Inl (SpecificationError s)
      | [] \<Rightarrow>
          Inr (p\<lparr>argument_groups :=
                  butlast (argument_groups p) @
                  [(last (argument_groups p))
                     \<lparr>actions := actions (last (argument_groups p)) @
                        [\<lparr>option_strings = als, settings = cfg\<rparr>]\<rparr>]\<rparr>))"

text \<open>
  Modelled from the spec: the mutual-exclusion check of the compiled parser at
  invocation time. \<open>supplied j\<close> says that the invocation supplies the \<open>j\<close>-th argument
  of the group. ``At most one of the group's arguments may be supplied; zero is
  allowed'' when the construct is not required.
\<close>

definition supplied_count :: "concrete_group \<Rightarrow> (nat \<Rightarrow> bool) \<Rightarrow> nat" where
  "supplied_count g supplied = length (filter supplied [0..<length (actions g)])"

definition exclusion_rejects :: "concrete_group \<Rightarrow> (nat \<Rightarrow> bool) \<Rightarrow> bool" where
  "exclusion_rejects g supplied =
     (case exclusive g of
        None \<Rightarrow> False
      | Some required \<Rightarrow>
          1 < supplied_count g supplied \<or> (required \<and> supplied_count g supplied = 0))"

subsection \<open>The executable-parser compiler\<close>

text \<open>
  \<^verbatim>\<open>
  ARGPARSE_QUALIFIER_MAP = {
      Qualifiers.OPTIONAL: argparse.OPTIONAL,
      Qualifiers.SUPPRESS: argparse.SUPPRESS,
      Qualifiers.ZERO_OR_MORE: argparse.ZERO_OR_MORE,
  }
  \<close>
  with the constants of \<^verbatim>\<open>argparse\<close>: \<^verbatim>\<open>'?'\<close>, \<^verbatim>\<open>'==SUPPRESS=='\<close> and \<^verbatim>\<open>'*'\<close>.
\<close>

fun ARGPARSE_QUALIFIER_MAP :: "Qualifiers \<rightharpoonup> pyval" where
  "ARGPARSE_QUALIFIER_MAP OPTIONAL = Some (PStr (py ''?''))"
| "ARGPARSE_QUALIFIER_MAP SUPPRESS = Some (PStr (py ''==SUPPRESS==''))"
| "ARGPARSE_QUALIFIER_MAP ZERO_OR_MORE = Some (PStr (py ''*''))"

text \<open>
  \<^verbatim>\<open>
  for abstract_argument in abstract_group.arguments:
      concrete_group.add_argument(
          *abstract_argument.aliases,
          **map_qualifiers(abstract_argument.configuration, ARGPARSE_QUALIFIER_MAP)
      )
  \<close>
\<close>

fun to_argparse_arguments :: "concrete_parser \<Rightarrow> Argument list \<Rightarrow> error + concrete_parser" where
  "to_argparse_arguments p [] = Inr p"
| "to_argparse_arguments p (a # as) =
     (case map_qualifiers (configuration a) ARGPARSE_QUALIFIER_MAP of
        Inl e \<Rightarrow> Inl e
      | Inr cfg \<Rightarrow>
          (case parser_add_argument p (aliases a) cfg of
             Inl e \<Rightarrow> Inl e
           | Inr p' \<Rightarrow> to_argparse_arguments p' as))"

text \<open>
  \<^verbatim>\<open>
  for abstract_group in abstract_options.groups:
      concrete_group = concrete_parser.add_argument_group(
          title=abstract_group.name, description=abstract_group.description
      )
      if abstract_group.is_mutually_exclusive:
          concrete_group = concrete_group.add_mutually_exclusive_group(required=False)
      for abstract_argument in abstract_group.arguments: ...
  \<close>
\<close>

fun to_argparse_groups :: "concrete_parser \<Rightarrow> Group list \<Rightarrow> error + concrete_parser" where
  "to_argparse_groups p [] = Inr p"
| "to_argparse_groups p (g # gs) =
     (let concrete_group = add_argument_group p (name g) (description g);
          concrete_group =
            (if is_mutually_exclusive g
             then add_mutually_exclusive_group concrete_group False
             else concrete_group)
      in case to_argparse_arguments concrete_group (arguments g) of
           Inl e \<Rightarrow> Inl e
         | Inr p' \<Rightarrow> to_argparse_groups p' gs)"

text \<open>
  \<^verbatim>\<open>
  def to_argparse(abstract_options, parser_type=HTTPieArgumentParser):
      concrete_parser = parser_type(
          prog=abstract_options.program,
          description=abstract_options.description,
          epilog=abstract_options.epilog,
      )
      concrete_parser.register('action', 'lazy_choices', LazyChoices)
      for abstract_group in abstract_options.groups: ...
      return concrete_parser
  \<close>
\<close>

definition to_argparse :: "ParserSpec \<Rightarrow> error + concrete_parser" where
  "to_argparse abstract_options =
     to_argparse_groups
       (register
          (create_parser (program abstract_options) (spec_description abstract_options)
             (epilog abstract_options))
          (py ''action'') (py ''lazy_choices''))
       (groups abstract_options)"

section \<open>Inputs of the examples\<close>

text \<open>A \<^verbatim>\<open>LazyChoices\<close> whose constructor raises: for arguments that never build one.\<close>

definition no_lazy_choices :: lazy_choices_class where
  "no_lazy_choices als kwargs = Inl ResolutionError"

text \<open>
  A \<^verbatim>\<open>LazyChoices\<close> that loads two values and has a two-line help.
\<close>

definition two_choices :: lazy_choices_class where
  "two_choices als kwargs =
     Inr \<lparr>lc_load = Inr [PStr (py ''auto''), PStr (py ''fruity'')],
          lc_help = Inr (PStr (py ''Styles.'' @ [10] @ py ''One of auto, fruity.''))\<rparr>"

text \<open>
  A specification with a mutually exclusive group of two flags and a group with one
  positional argument, and the same with a third group that uses \<^verbatim>\<open>-f\<close> again.
\<close>

definition style_spec :: ParserSpec where
  "style_spec =
     \<lparr>program = py ''http'', spec_description = py ''HTTPie'', epilog = [],
      groups =
        [\<lparr>name = py ''Output'', description = [], is_mutually_exclusive = True,
          arguments =
            [\<lparr>aliases = [py ''--raw''], configuration = [(py ''nargs'', PQual OPTIONAL)]\<rparr>,
             \<lparr>aliases = [py ''--form'', py ''-f''], configuration = []\<rparr>]\<rparr>,
         \<lparr>name = py ''Positional'', description = [], is_mutually_exclusive = False,
          arguments =
            [\<lparr>aliases = [], configuration = [(py ''metavar'', PStr (py ''URL''))]\<rparr>]\<rparr>]\<rparr>"

definition clash_spec :: ParserSpec where
  "clash_spec =
     style_spec
       \<lparr>groups := groups style_spec @
          [\<lparr>name = py ''Files'', description = [], is_mutually_exclusive = False,
            arguments = [\<lparr>aliases = [py ''--file'', py ''-f''], configuration = []\<rparr>]\<rparr>]\<rparr>"

text \<open>A specification whose only group declares two positional arguments.\<close>

definition positional_spec :: ParserSpec where
  "positional_spec =
     \<lparr>program = py ''http'', spec_description = [], epilog = [],
      groups =
        [\<lparr>name = py ''Positional arguments'', description = [],
          is_mutually_exclusive = False,
          arguments =
            [\<lparr>aliases = [],
              configuration = [(py ''metavar'', PStr (py ''METHOD'')),
                               (py ''nargs'', PQual OPTIONAL)]\<rparr>,
             \<lparr>aliases = [], configuration = [(py ''metavar'', PStr (py ''URL''))]\<rparr>]\<rparr>]\<rparr>"

section \<open>Auxiliary facts\<close>

lemma py_eq_iff [simp]: "py s = py t \<longleftrightarrow> s = t"
proof -
  have "inj (of_char :: char \<Rightarrow> nat)"
    by (rule injI) simp
  then have "inj (map (of_char :: char \<Rightarrow> nat))"
    by simp
  then show ?thesis
    unfolding py_def by (auto dest: injD)
qed

lemma dict_get_set: "dict_get (dict_set d k v) k' = (if k' = k then Some v else dict_get d k')"
  by (induction d) (auto simp: dict_get_def)

lemma dict_get_update:
  "dict_get (dict_update d e) k =
     (case map_of (rev e) k of None \<Rightarrow> dict_get d k | Some v \<Rightarrow> Some v)"
proof (induction e arbitrary: d)
  case Nil
  then show ?case by (simp add: dict_update_def)
next
  case (Cons x e)
  obtain k' v' where x: "x = (k', v')" by (cases x)
  have "dict_update d (x # e) = dict_update (dict_set d k' v') e"
    by (simp add: dict_update_def x)
  then show ?case
    using Cons.IH [of "dict_set d k' v'"]
    by (auto simp: x dict_get_set map_add_def split: option.splits)
qed

lemma dict_get_update_notin:
  "k \<notin> fst ` set e \<Longrightarrow> dict_get (dict_update d e) k = dict_get d k"
proof -
  assume "k \<notin> fst ` set e"
  then have "map_of (rev e) k = None"
    by (simp add: map_of_eq_None_iff)
  then show ?thesis by (simp add: dict_get_update)
qed

lemma dict_get_filter_neq:
  "dict_get (filter (\<lambda>(k', _). k' \<noteq> k) d) k' = (if k' = k then None else dict_get d k')"
  by (induction d) (auto simp: dict_get_def)

lemma dict_get_pop:
  "dict_get (snd (dict_pop d k dflt)) k' = (if k' = k then None else dict_get d k')"
  using dict_get_filter_neq [of k d k']
  by (auto simp: dict_pop_def dict_get_def split: option.splits)

lemma fst_dict_pop:
  "fst (dict_pop d k dflt) = (case dict_get d k of None \<Rightarrow> dflt | Some v \<Rightarrow> v)"
  by (simp add: dict_pop_def dict_get_def split: option.splits)

lemma serialize_Inr:
  assumes "serialize LC a = Inr r"
  obtains cfg result qualifiers result' where
    "lazy_configuration LC a = Inr cfg"
    "options_fields a cfg = Inr result"
    "qualifier_options (case dict_get cfg (py ''nargs'') of None \<Rightarrow> PQual SUPPRESS | Some v \<Rightarrow> v)
       = Inr qualifiers"
    "description_field cfg (dict_update result qualifiers) = Inr result'"
    "r = mirror_fields cfg (type_field cfg result')"
  using assms unfolding serialize_def by (auto split: sum.splits)

lemma mirror_fields_other:
  "k \<notin> set JSON_DIRECT_MIRROR_OPTIONS \<Longrightarrow> dict_get (mirror_fields cfg r) k = dict_get r k"
  unfolding mirror_fields_def by (rule dict_get_update_notin) auto

lemma type_field_other:
  "k \<noteq> py ''python_type_name'' \<Longrightarrow> dict_get (type_field cfg r) k = dict_get r k"
  by (auto simp: type_field_def dict_get_set split: option.splits)

lemma description_field_other:
  "description_field cfg r = Inr r' \<Longrightarrow> k \<noteq> py ''description'' \<Longrightarrow> dict_get r' k = dict_get r k"
  by (auto simp: description_field_def Let_def dict_get_set split: if_splits sum.splits)

lemma qualifier_options_Inr:
  "qualifier_options v = Inr q \<Longrightarrow> \<exists>m. v = PQual m \<and> q = JSON_QUALIFIER_TO_OPTIONS m"
  by (cases v) (auto simp: qualifier_options_def)

lemma options_fields_get:
  "options_fields a cfg = Inr r \<Longrightarrow>
     dict_get r k =
       (if k = py ''options''
        then (if aliases a \<noteq> [] then Some (PList (map PStr (aliases a)))
              else dict_get cfg (py ''metavar''))
        else if k = py ''is_positional'' \<and> aliases a = [] then Some (PBool True)
        else None)"
  by (auto simp: options_fields_def dict_get_set dict_get_def split: if_splits option.splits)

lemma lazy_configuration_other:
  "lazy_configuration LC a = Inr cfg \<Longrightarrow> k \<noteq> py ''action'' \<Longrightarrow> k \<noteq> py ''choices'' \<Longrightarrow>
     k \<noteq> py ''help'' \<Longrightarrow> dict_get cfg k = dict_get (configuration a) k"
  using dict_get_pop [of "configuration a" "py ''action''" PNone k]
  by (auto simp: lazy_configuration_def dict_get_set split: prod.splits if_splits sum.splits)

section \<open>The schema entry of an argument\<close>

lemmas serialize_defs =
  serialize_def lazy_configuration_def dict_pop_def dict_update_def options_fields_def
  qualifier_options_def dict_get_def description_field_def first_help_line_def strip_def
  splitlines_def py_def isspace_def islinebreak_def type_field_def mirror_fields_def
  JSON_DIRECT_MIRROR_OPTIONS_def

lemma serialize_get_early:
  assumes "serialize LC a = Inr r"
      and k: "k \<noteq> py ''choices''" "k \<noteq> py ''metavar''" "k \<noteq> py ''python_type_name''"
             "k \<noteq> py ''description''"
  shows "\<exists>cfg result q.
           lazy_configuration LC a = Inr cfg
         \<and> options_fields a cfg = Inr result
         \<and> (case dict_get cfg (py ''nargs'') of None \<Rightarrow> PQual SUPPRESS | Some v \<Rightarrow> v) = PQual q
         \<and> dict_get r k = dict_get (dict_update result (JSON_QUALIFIER_TO_OPTIONS q)) k"
proof -
  from assms(1) obtain cfg result qualifiers result' where
    cfg: "lazy_configuration LC a = Inr cfg"
    and res: "options_fields a cfg = Inr result"
    and q: "qualifier_options (case dict_get cfg (py ''nargs'') of
              None \<Rightarrow> PQual SUPPRESS | Some v \<Rightarrow> v) = Inr qualifiers"
    and d: "description_field cfg (dict_update result qualifiers) = Inr result'"
    and r: "r = mirror_fields cfg (type_field cfg result')"
    by (rule serialize_Inr)
  from q obtain m where m: "(case dict_get cfg (py ''nargs'') of
              None \<Rightarrow> PQual SUPPRESS | Some v \<Rightarrow> v) = PQual m"
    and qm: "qualifiers = JSON_QUALIFIER_TO_OPTIONS m"
    by (blast dest: qualifier_options_Inr)
  have "k \<notin> set JSON_DIRECT_MIRROR_OPTIONS"
    using k(1,2) by (simp add: JSON_DIRECT_MIRROR_OPTIONS_def)
  then have "dict_get r k = dict_get (type_field cfg result') k"
    unfolding r by (rule mirror_fields_other)
  also have "\<dots> = dict_get result' k"
    using k(3) by (rule type_field_other)
  also have "\<dots> = dict_get (dict_update result qualifiers) k"
    using d k(4) by (rule description_field_other)
  finally show ?thesis using cfg res m qm by blast
qed

text \<open>
  Claim C1. When \<^verbatim>\<open>Argument.serialize\<close> returns, the qualifier under \<^verbatim>\<open>'nargs'\<close> is
  expanded through the fixed table: \<open>OPTIONAL\<close> gives \<^verbatim>\<open>is_optional: True\<close> and no
  \<^verbatim>\<open>is_variadic\<close>; \<open>ZERO_OR_MORE\<close> gives \<^verbatim>\<open>is_optional: True\<close> and
  \<^verbatim>\<open>is_variadic: True\<close>; \<open>SUPPRESS\<close> gives neither field; and with no \<^verbatim>\<open>'nargs'\<close> in
  the configuration the entry has neither field.
\<close>

theorem serialize_qualifier_expansion:
  assumes "serialize LC a = Inr r"
  shows "(dict_get (configuration a) (py ''nargs'') = Some (PQual OPTIONAL) \<longrightarrow>
            dict_get r (py ''is_optional'') = Some (PBool True)
          \<and> dict_get r (py ''is_variadic'') = None)
       \<and> (dict_get (configuration a) (py ''nargs'') = Some (PQual ZERO_OR_MORE) \<longrightarrow>
            dict_get r (py ''is_optional'') = Some (PBool True)
          \<and> dict_get r (py ''is_variadic'') = Some (PBool True))
       \<and> (dict_get (configuration a) (py ''nargs'') = Some (PQual SUPPRESS) \<longrightarrow>
            dict_get r (py ''is_optional'') = None
          \<and> dict_get r (py ''is_variadic'') = None)
       \<and> (dict_get (configuration a) (py ''nargs'') = None \<longrightarrow>
            dict_get r (py ''is_optional'') = None
          \<and> dict_get r (py ''is_variadic'') = None)"
proof -
  obtain cfg result q where
    cfg: "lazy_configuration LC a = Inr cfg"
    and res: "options_fields a cfg = Inr result"
    and q: "(case dict_get cfg (py ''nargs'') of None \<Rightarrow> PQual SUPPRESS | Some v \<Rightarrow> v) = PQual q"
    and opt: "dict_get r (py ''is_optional'') =
                dict_get (dict_update result (JSON_QUALIFIER_TO_OPTIONS q)) (py ''is_optional'')"
    using serialize_get_early [OF assms, of "py ''is_optional''"] by auto
  obtain cfg' result' q' where
    cfg': "lazy_configuration LC a = Inr cfg'"
    and res': "options_fields a cfg' = Inr result'"
    and q': "(case dict_get cfg' (py ''nargs'') of None \<Rightarrow> PQual SUPPRESS | Some v \<Rightarrow> v) = PQual q'"
    and var': "dict_get r (py ''is_variadic'') =
                dict_get (dict_update result' (JSON_QUALIFIER_TO_OPTIONS q')) (py ''is_variadic'')"
    using serialize_get_early [OF assms, of "py ''is_variadic''"] by auto
  have same: "cfg' = cfg" "result' = result" "q' = q"
    using cfg cfg' res res' q q' by simp_all
  have nargs: "dict_get cfg (py ''nargs'') = dict_get (configuration a) (py ''nargs'')"
    by (rule lazy_configuration_other [OF cfg]) simp_all
  have r1: "dict_get result (py ''is_optional'') = None"
    using options_fields_get [OF res, of "py ''is_optional''"] by simp
  have r2: "dict_get result (py ''is_variadic'') = None"
    using options_fields_get [OF res, of "py ''is_variadic''"] by simp
  have o: "dict_get r (py ''is_optional'') =
             (if q = SUPPRESS then None else Some (PBool True))"
    unfolding opt using r1 by (cases q) (simp_all add: dict_get_update)
  have v: "dict_get r (py ''is_variadic'') =
             (if q = ZERO_OR_MORE then Some (PBool True) else None)"
    unfolding var' same using r2 by (cases q) (simp_all add: dict_get_update)
  show ?thesis using q unfolding o v nargs by (simp split: option.splits)
qed

theorem serialize_qualifier_expansion_witness:
  "serialize no_lazy_choices
     \<lparr>aliases = [py ''--raw''], configuration = [(py ''nargs'', PQual ZERO_OR_MORE)]\<rparr>
   = Inr [(py ''options'', PList [PStr (py ''--raw'')]), (py ''is_optional'', PBool True),
          (py ''is_variadic'', PBool True)]
   \<and> dict_get [(py ''options'', PList [PStr (py ''--raw'')]), (py ''is_optional'', PBool True),
          (py ''is_variadic'', PBool True)] (py ''is_variadic'') = Some (PBool True)"
proof -
  have h: "serialize no_lazy_choices
     \<lparr>aliases = [py ''--raw''], configuration = [(py ''nargs'', PQual ZERO_OR_MORE)]\<rparr>
   = Inr [(py ''options'', PList [PStr (py ''--raw'')]), (py ''is_optional'', PBool True),
          (py ''is_variadic'', PBool True)]"
    by (simp add: serialize_defs)
  show ?thesis
    using h serialize_qualifier_expansion [OF h] by (simp add: dict_get_def)
qed

text \<open>
  Claim C6. When \<^verbatim>\<open>Argument.serialize\<close> returns: with aliases, \<^verbatim>\<open>options\<close> is the list
  of the aliases and there is no \<^verbatim>\<open>is_positional\<close> field; without aliases, the
  configuration has a \<^verbatim>\<open>metavar\<close>, \<^verbatim>\<open>options\<close> is that value and \<^verbatim>\<open>is_positional\<close> is
  \<^verbatim>\<open>True\<close>.
\<close>

theorem serialize_options:
  assumes "serialize LC a = Inr r"
  shows "(aliases a \<noteq> [] \<longrightarrow>
            dict_get r (py ''options'') = Some (PList (map PStr (aliases a)))
          \<and> dict_get r (py ''is_positional'') = None)
       \<and> (aliases a = [] \<longrightarrow>
            (\<exists>m. dict_get (configuration a) (py ''metavar'') = Some m
                \<and> dict_get r (py ''options'') = Some m)
          \<and> dict_get r (py ''is_positional'') = Some (PBool True))"
proof -
  obtain cfg result q where
    cfg: "lazy_configuration LC a = Inr cfg"
    and res: "options_fields a cfg = Inr result"
    and opt: "dict_get r (py ''options'') =
                dict_get (dict_update result (JSON_QUALIFIER_TO_OPTIONS q)) (py ''options'')"
    using serialize_get_early [OF assms, of "py ''options''"] by auto
  obtain cfg' result' q' where
    cfg': "lazy_configuration LC a = Inr cfg'"
    and res': "options_fields a cfg' = Inr result'"
    and pos': "dict_get r (py ''is_positional'') =
                dict_get (dict_update result' (JSON_QUALIFIER_TO_OPTIONS q')) (py ''is_positional'')"
    using serialize_get_early [OF assms, of "py ''is_positional''"] by auto
  have same: "cfg' = cfg" "result' = result"
    using cfg cfg' res res' by simp_all
  have metavar: "dict_get cfg (py ''metavar'') = dict_get (configuration a) (py ''metavar'')"
    by (rule lazy_configuration_other [OF cfg]) simp_all
  have o: "dict_get r (py ''options'') =
      (if aliases a \<noteq> [] then Some (PList (map PStr (aliases a)))
       else dict_get (configuration a) (py ''metavar''))"
    unfolding opt using options_fields_get [OF res, of "py ''options''"] metavar
    by (cases q) (simp_all add: dict_get_update)
  have p: "dict_get r (py ''is_positional'') =
      (if aliases a = [] then Some (PBool True) else None)"
    unfolding pos' same using options_fields_get [OF res, of "py ''is_positional''"]
    by (cases q') (simp_all add: dict_get_update)
  have "aliases a = [] \<Longrightarrow> \<exists>m. dict_get cfg (py ''metavar'') = Some m"
    using res by (auto simp: options_fields_def split: option.splits)
  then show ?thesis unfolding o p using metavar by auto
qed

theorem serialize_options_witness:
  "serialize no_lazy_choices
     \<lparr>aliases = [], configuration = [(py ''metavar'', PStr (py ''URL''))]\<rparr>
   = Inr [(py ''options'', PStr (py ''URL'')), (py ''is_positional'', PBool True),
          (py ''metavar'', PStr (py ''URL''))]
   \<and> dict_get [(py ''options'', PStr (py ''URL'')), (py ''is_positional'', PBool True),
          (py ''metavar'', PStr (py ''URL''))] (py ''options'') = Some (PStr (py ''URL''))
   \<and> dict_get [(py ''options'', PStr (py ''URL'')), (py ''is_positional'', PBool True),
          (py ''metavar'', PStr (py ''URL''))] (py ''is_positional'') = Some (PBool True)"
proof -
  have h: "serialize no_lazy_choices
     \<lparr>aliases = [], configuration = [(py ''metavar'', PStr (py ''URL''))]\<rparr>
   = Inr [(py ''options'', PStr (py ''URL'')), (py ''is_positional'', PBool True),
          (py ''metavar'', PStr (py ''URL''))]"
    by (simp add: serialize_defs)
  show ?thesis
    using h serialize_options [OF h] by (simp add: dict_get_def)
qed

section \<open>The qualifier mapping\<close>

lemma map_qualifier_cases:
  "map_qualifier qm v =
     (case v of PQual q \<Rightarrow> (case qm q of None \<Rightarrow> Inl (KeyError (PQual q)) | Some t \<Rightarrow> Inr t)
      | _ \<Rightarrow> Inr v)"
  by (simp add: map_qualifier_def)

lemma map_qualifier_Inr:
  "map_qualifier qm v = Inr v' \<Longrightarrow>
     (case v of PQual q \<Rightarrow> qm q = Some v' | _ \<Rightarrow> v' = v)"
  by (cases v) (auto simp: map_qualifier_def split: option.splits)

lemma map_qualifier_Inl:
  "map_qualifier qm v = Inl e \<Longrightarrow> \<exists>q. v = PQual q \<and> qm q = None \<and> e = KeyError (PQual q)"
  by (cases v) (auto simp: map_qualifier_def split: option.splits)

lemma map_qualifiers_Inr:
  "map_qualifiers cfg qm = Inr r \<Longrightarrow>
     list_all2 (\<lambda>(k, v) (k', v'). k' = k \<and> map_qualifier qm v = Inr v') cfg r"
proof (induction cfg arbitrary: r)
  case Nil
  then show ?case by simp
next
  case (Cons x cfg)
  obtain k v where x: "x = (k, v)" by (cases x)
  from Cons.prems obtain v' rest where
    v': "map_qualifier qm v = Inr v'" and rest: "map_qualifiers cfg qm = Inr rest"
    and r: "r = (k, v') # rest"
    by (auto simp: x split: sum.splits)
  show ?case using Cons.IH [OF rest] v' by (simp add: r x)
qed

lemma map_qualifiers_Inl:
  "map_qualifiers cfg qm = Inl e \<Longrightarrow>
     \<exists>k q. (k, PQual q) \<in> set cfg \<and> qm q = None \<and> e = KeyError (PQual q)"
proof (induction cfg)
  case Nil
  then show ?case by simp
next
  case (Cons x cfg)
  obtain k v where x: "x = (k, v)" by (cases x)
  show ?case
  proof (cases "map_qualifier qm v")
    case (Inl e')
    then have "e' = e" using Cons.prems by (simp add: x)
    then show ?thesis using map_qualifier_Inl [OF Inl] by (auto simp: x)
  next
    case (Inr v')
    then have "map_qualifiers cfg qm = Inl e"
      using Cons.prems by (simp add: x split: sum.splits)
    then show ?thesis using Cons.IH by auto
  qed
qed

lemma map_qualifiers_missing:
  "(k, PQual q) \<in> set cfg \<Longrightarrow> qm q = None \<Longrightarrow> \<exists>e. map_qualifiers cfg qm = Inl e"
proof (induction cfg)
  case Nil
  then show ?case by simp
next
  case (Cons x cfg)
  obtain k' v where x: "x = (k', v)" by (cases x)
  show ?case
  proof (cases "x = (k, PQual q)")
    case True
    then show ?thesis using Cons.prems(2) by (simp add: map_qualifier_def)
  next
    case False
    then have "\<exists>e. map_qualifiers cfg qm = Inl e"
      using Cons by auto
    then show ?thesis by (auto simp: x split: sum.splits)
  qed
qed

text \<open>
  Claim C2. \<^verbatim>\<open>map_qualifiers\<close> either returns a mapping with the keys of the
  configuration, in which every value that is a \<open>Qualifiers\<close> member is the target
  map's entry for that member and every other value is unchanged, or raises
  \<^verbatim>\<open>KeyError\<close> for a member among the values that the target map has no entry for; and
  it raises whenever there is such a member.
\<close>

theorem map_qualifiers_rewrites:
  "(case map_qualifiers cfg qm of
      Inr r \<Rightarrow>
        map fst r = map fst cfg
      \<and> (\<forall>i < length cfg.
            case snd (cfg ! i) of
              PQual q \<Rightarrow> qm q = Some (snd (r ! i))
            | _ \<Rightarrow> snd (r ! i) = snd (cfg ! i))
    | Inl e \<Rightarrow> \<exists>k q. (k, PQual q) \<in> set cfg \<and> qm q = None \<and> e = KeyError (PQual q))
   \<and> ((\<exists>k q. (k, PQual q) \<in> set cfg \<and> qm q = None) \<longrightarrow>
        (\<exists>e. map_qualifiers cfg qm = Inl e))"
proof (intro conjI impI)
  show "case map_qualifiers cfg qm of
      Inr r \<Rightarrow>
        map fst r = map fst cfg
      \<and> (\<forall>i < length cfg.
            case snd (cfg ! i) of
              PQual q \<Rightarrow> qm q = Some (snd (r ! i))
            | _ \<Rightarrow> snd (r ! i) = snd (cfg ! i))
    | Inl e \<Rightarrow> \<exists>k q. (k, PQual q) \<in> set cfg \<and> qm q = None \<and> e = KeyError (PQual q)"
  proof (cases "map_qualifiers cfg qm")
    case (Inl e)
    then show ?thesis using map_qualifiers_Inl [OF Inl] by simp
  next
    case (Inr r)
    have all: "list_all2 (\<lambda>(k, v) (k', v'). k' = k \<and> map_qualifier qm v = Inr v') cfg r"
      by (rule map_qualifiers_Inr [OF Inr])
    then have len: "length cfg = length r"
      by (rule list_all2_lengthD)
    have nth: "fst (r ! i) = fst (cfg ! i) \<and> map_qualifier qm (snd (cfg ! i)) = Inr (snd (r ! i))"
      if "i < length cfg" for i
      using list_all2_nthD [OF all that] by (simp add: case_prod_beta)
    have keys: "map fst r = map fst cfg"
      using len nth by (auto intro: nth_equalityI)
    have vals: "case snd (cfg ! i) of
              PQual q \<Rightarrow> qm q = Some (snd (r ! i))
            | _ \<Rightarrow> snd (r ! i) = snd (cfg ! i)" if "i < length cfg" for i
      using map_qualifier_Inr [of qm "snd (cfg ! i)" "snd (r ! i)"] nth [OF that]
      by (simp split: pyval.splits)
    show ?thesis using keys vals by (simp add: Inr)
  qed
next
  assume "\<exists>k q. (k, PQual q) \<in> set cfg \<and> qm q = None"
  then show "\<exists>e. map_qualifiers cfg qm = Inl e"
    using map_qualifiers_missing by blast
qed

theorem map_qualifiers_rewrites_witness:
  "map_qualifiers [(py ''nargs'', PQual OPTIONAL), (py ''default'', PNone)] ARGPARSE_QUALIFIER_MAP
     = Inr [(py ''nargs'', PStr (py ''?'')), (py ''default'', PNone)]
   \<and> map_qualifiers [(py ''default'', PNone), (py ''help'', PQual SUPPRESS)]
       (Map.empty(OPTIONAL \<mapsto> PStr (py ''?'')))
     = Inl (KeyError (PQual SUPPRESS))"
proof -
  have "(py ''help'', PQual SUPPRESS) \<in> set [(py ''default'', PNone), (py ''help'', PQual SUPPRESS)]
        \<and> (Map.empty(OPTIONAL \<mapsto> PStr (py ''?''))) SUPPRESS = None"
    by simp
  then have "\<exists>e. map_qualifiers [(py ''default'', PNone), (py ''help'', PQual SUPPRESS)]
       (Map.empty(OPTIONAL \<mapsto> PStr (py ''?''))) = Inl e"
    using map_qualifiers_rewrites
      [of "[(py ''default'', PNone), (py ''help'', PQual SUPPRESS)]"
          "Map.empty(OPTIONAL \<mapsto> PStr (py ''?''))"]
    by blast
  then show ?thesis
    by (simp add: map_qualifier_def)
qed

section \<open>The description of an argument\<close>

lemma lazy_configuration_not_lazy:
  assumes "dict_get (configuration a) (py ''action'') \<noteq> Some (PStr (py ''lazy_choices''))"
  shows "lazy_configuration LC a = Inr (snd (dict_pop (configuration a) (py ''action'') PNone))"
proof -
  have "fst (dict_pop (configuration a) (py ''action'') PNone) \<noteq> PStr (py ''lazy_choices'')"
    using assms by (auto simp: fst_dict_pop split: option.splits)
  then show ?thesis
    by (simp add: lazy_configuration_def case_prod_beta)
qed

lemma lazy_configuration_lazy:
  assumes "dict_get (configuration a) (py ''action'') = Some (PStr (py ''lazy_choices''))"
      and "lazy_configuration LC a = Inr cfg"
  shows "\<exists>choices loaded h.
           LC (aliases a)
             (dict_update [(py ''dest'', PNone)]
                (snd (dict_pop (configuration a) (py ''action'') PNone))) = Inr choices
         \<and> lc_load choices = Inr loaded \<and> lc_help choices = Inr h
         \<and> cfg = dict_set (dict_set (snd (dict_pop (configuration a) (py ''action'') PNone))
                   (py ''choices'') (PList loaded)) (py ''help'') h"
proof -
  have "fst (dict_pop (configuration a) (py ''action'') PNone) = PStr (py ''lazy_choices'')"
    using assms(1) by (simp add: fst_dict_pop)
  then show ?thesis
    using assms(2) by (auto simp: lazy_configuration_def case_prod_beta split: sum.splits)
qed

lemma description_field_get:
  assumes "description_field cfg r = Inr r'"
  shows "case dict_get cfg (py ''help'') of
           None \<Rightarrow> dict_get r' (py ''description'') = dict_get r (py ''description'')
         | Some h \<Rightarrow>
             if truthy h \<and> h \<noteq> PQual SUPPRESS
             then \<exists>s l ls. h = PStr s \<and> splitlines (strip s) = l # ls
                    \<and> dict_get r' (py ''description'') = Some (PStr l)
             else dict_get r' (py ''description'') = dict_get r (py ''description'')"
proof (cases "dict_get cfg (py ''help'')")
  case None
  then show ?thesis using assms by (simp add: description_field_def)
next
  case (Some h)
  show ?thesis
  proof (cases "truthy h \<and> h \<noteq> PQual SUPPRESS")
    case False
    then show ?thesis using assms Some by (auto simp: description_field_def)
  next
    case True
    then obtain l where l: "first_help_line h = Inr l"
      and r': "r' = dict_set r (py ''description'') l"
      using assms Some by (auto simp: description_field_def split: sum.splits)
    from l obtain s x ls where "h = PStr s" "splitlines (strip s) = x # ls" "l = PStr x"
      by (cases h) (auto simp: first_help_line_def split: list.splits)
    then show ?thesis using True Some by (simp add: r' dict_get_set)
  qed
qed

lemma serialize_get_description:
  assumes "serialize LC a = Inr r"
  shows "\<exists>cfg. lazy_configuration LC a = Inr cfg
           \<and> (case dict_get cfg (py ''help'') of
                None \<Rightarrow> dict_get r (py ''description'') = None
              | Some h \<Rightarrow>
                  if truthy h \<and> h \<noteq> PQual SUPPRESS
                  then \<exists>s l ls. h = PStr s \<and> splitlines (strip s) = l # ls
                         \<and> dict_get r (py ''description'') = Some (PStr l)
                  else dict_get r (py ''description'') = None)"
proof -
  from assms(1) obtain cfg result qualifiers result' where
    cfg: "lazy_configuration LC a = Inr cfg"
    and res: "options_fields a cfg = Inr result"
    and q: "qualifier_options (case dict_get cfg (py ''nargs'') of
              None \<Rightarrow> PQual SUPPRESS | Some v \<Rightarrow> v) = Inr qualifiers"
    and d: "description_field cfg (dict_update result qualifiers) = Inr result'"
    and r: "r = mirror_fields cfg (type_field cfg result')"
    by (rule serialize_Inr)
  from q obtain m where qm: "qualifiers = JSON_QUALIFIER_TO_OPTIONS m"
    by (blast dest: qualifier_options_Inr)
  have "py ''description'' \<notin> set JSON_DIRECT_MIRROR_OPTIONS"
    by (simp add: JSON_DIRECT_MIRROR_OPTIONS_def)
  then have "dict_get r (py ''description'') = dict_get (type_field cfg result') (py ''description'')"
    unfolding r by (rule mirror_fields_other)
  also have "\<dots> = dict_get result' (py ''description'')"
    by (rule type_field_other) simp
  finally have final: "dict_get r (py ''description'') = dict_get result' (py ''description'')" .
  have "dict_get result (py ''description'') = None"
    using options_fields_get [OF res, of "py ''description''"] by simp
  then have before: "dict_get (dict_update result qualifiers) (py ''description'') = None"
    by (cases m) (simp_all add: qm dict_get_update)
  show ?thesis
    using cfg description_field_get [OF d] unfolding final before by blast
qed

text \<open>
  Claim C5, amended. When \<^verbatim>\<open>Argument.serialize\<close> returns, the entry has a
  \<^verbatim>\<open>description\<close> exactly when the help (the configuration's \<^verbatim>\<open>'help'\<close>, or what the
  lazy choices put there) is present, true as a condition (so neither \<^verbatim>\<open>None\<close> nor the
  empty string) and not \<open>SUPPRESS\<close>; the help is then a string and the description is
  the first line of the stripped help.
\<close>

theorem serialize_description:
  assumes "serialize LC a = Inr r"
  shows "\<exists>cfg. lazy_configuration LC a = Inr cfg
           \<and> (dict_get (configuration a) (py ''action'') \<noteq> Some (PStr (py ''lazy_choices'')) \<longrightarrow>
                dict_get cfg (py ''help'') = dict_get (configuration a) (py ''help''))
           \<and> (case dict_get cfg (py ''help'') of
                None \<Rightarrow> dict_get r (py ''description'') = None
              | Some h \<Rightarrow>
                  if truthy h \<and> h \<noteq> PQual SUPPRESS
                  then \<exists>s l ls. h = PStr s \<and> splitlines (strip s) = l # ls
                         \<and> dict_get r (py ''description'') = Some (PStr l)
                  else dict_get r (py ''description'') = None)"
proof -
  obtain cfg where cfg: "lazy_configuration LC a = Inr cfg"
    and d: "case dict_get cfg (py ''help'') of
                None \<Rightarrow> dict_get r (py ''description'') = None
              | Some h \<Rightarrow>
                  if truthy h \<and> h \<noteq> PQual SUPPRESS
                  then \<exists>s l ls. h = PStr s \<and> splitlines (strip s) = l # ls
                         \<and> dict_get r (py ''description'') = Some (PStr l)
                  else dict_get r (py ''description'') = None"
    using serialize_get_description [OF assms] by blast
  have "dict_get cfg (py ''help'') = dict_get (configuration a) (py ''help'')"
    if "dict_get (configuration a) (py ''action'') \<noteq> Some (PStr (py ''lazy_choices''))"
    using lazy_configuration_not_lazy [OF that, of LC] cfg
    by (auto simp: dict_get_pop)
  then show ?thesis using cfg d by blast
qed

theorem serialize_description_witness:
  "serialize no_lazy_choices
     \<lparr>aliases = [py ''--raw''],
      configuration = [(py ''help'', PStr (py ''Line one.'' @ [10] @ py ''More detail.''))]\<rparr>
   = Inr [(py ''options'', PList [PStr (py ''--raw'')]),
          (py ''description'', PStr (py ''Line one.''))]
   \<and> (\<exists>cfg. lazy_configuration no_lazy_choices
         \<lparr>aliases = [py ''--raw''],
          configuration = [(py ''help'', PStr (py ''Line one.'' @ [10] @ py ''More detail.''))]\<rparr>
        = Inr cfg
      \<and> dict_get cfg (py ''help'') = Some (PStr (py ''Line one.'' @ [10] @ py ''More detail.'')))"
proof -
  have h: "serialize no_lazy_choices
     \<lparr>aliases = [py ''--raw''],
      configuration = [(py ''help'', PStr (py ''Line one.'' @ [10] @ py ''More detail.''))]\<rparr>
   = Inr [(py ''options'', PList [PStr (py ''--raw'')]),
          (py ''description'', PStr (py ''Line one.''))]"
    by (simp add: serialize_defs no_lazy_choices_def)
  show ?thesis
    using h serialize_description [OF h] by (auto simp: dict_get_def)
qed

text \<open>
  An argument whose help is the empty string: the help is present and is not
  \<open>SUPPRESS\<close>, and the entry has no \<^verbatim>\<open>description\<close>.
\<close>

theorem serialize_description_counterexample:
  "serialize no_lazy_choices
     \<lparr>aliases = [py ''--raw''], configuration = [(py ''help'', PStr [])]\<rparr>
   = Inr [(py ''options'', PList [PStr (py ''--raw'')])]
   \<and> dict_get [(py ''help'', PStr [])] (py ''help'') = Some (PStr [])
   \<and> PStr [] \<noteq> PQual SUPPRESS
   \<and> dict_get [(py ''options'', PList [PStr (py ''--raw'')])] (py ''description'') = None"
  by (simp add: serialize_defs no_lazy_choices_def)

section \<open>Null values in a schema entry\<close>

lemma dict_get_SomeD: "dict_get d k = Some v \<Longrightarrow> (k, v) \<in> set d"
  by (simp add: dict_get_def map_of_SomeD)

lemma dict_get_update_SomeD:
  "dict_get (dict_update d e) k = Some v \<Longrightarrow> (k, v) \<in> set e \<or> dict_get d k = Some v"
proof -
  assume a: "dict_get (dict_update d e) k = Some v"
  show ?thesis
  proof (cases "map_of (rev e) k")
    case None
    then show ?thesis using a by (simp add: dict_get_update)
  next
    case (Some w)
    then have "w = v" using a by (simp add: dict_get_update)
    then have "(k, v) \<in> set (rev e)" using Some by (auto dest: map_of_SomeD)
    then show ?thesis by simp
  qed
qed

lemma set_dict_set: "set (dict_set d k v) \<subseteq> insert (k, v) (set d)"
  by (induction d) (auto split: if_splits)

lemma lazy_configuration_items:
  assumes "lazy_configuration LC a = Inr cfg" and "(k, PNone) \<in> set cfg"
      and "k \<noteq> py ''help''"
  shows "(k, PNone) \<in> set (configuration a)"
proof -
  let ?cfg0 = "snd (dict_pop (configuration a) (py ''action'') PNone)"
  have sub: "set ?cfg0 \<subseteq> set (configuration a)"
    by (auto simp: dict_pop_def split: option.splits)
  show ?thesis
  proof (cases "dict_get (configuration a) (py ''action'') = Some (PStr (py ''lazy_choices''))")
    case False
    then have "cfg = ?cfg0"
      using lazy_configuration_not_lazy [of a LC] assms(1) by simp
    then show ?thesis using assms(2) sub by auto
  next
    case True
    then obtain loaded h where
      "cfg = dict_set (dict_set ?cfg0 (py ''choices'') (PList loaded)) (py ''help'') h"
      using lazy_configuration_lazy [OF True assms(1)] by blast
    then have "set cfg \<subseteq> insert (py ''help'', h) (insert (py ''choices'', PList loaded) (set ?cfg0))"
      using set_dict_set [of "dict_set ?cfg0 (py ''choices'') (PList loaded)" "py ''help''" h]
            set_dict_set [of ?cfg0 "py ''choices''" "PList loaded"]
      by auto
    then have "(k, PNone) \<in> set ?cfg0"
      using assms(2,3) by auto
    then show ?thesis using sub by auto
  qed
qed

lemma type_field_PNone:
  "dict_get (type_field cfg r) k = Some PNone \<Longrightarrow> dict_get r k = Some PNone"
  by (auto simp: type_field_def dict_get_set split: option.splits if_splits)

lemma description_field_PNone:
  assumes "description_field cfg r = Inr r'" and "dict_get r' k = Some PNone"
  shows "dict_get r k = Some PNone"
proof (cases "k = py ''description''")
  case False
  then show ?thesis using description_field_other [OF assms(1) False] assms(2) by simp
next
  case True
  show ?thesis
    using description_field_get [OF assms(1)] assms(2) unfolding True
    by (auto split: option.splits if_splits)
qed

text \<open>
  Claim C9, amended. When \<^verbatim>\<open>Argument.serialize\<close> returns, only the values copied
  verbatim from the configuration can be \<^verbatim>\<open>None\<close> in the entry: \<^verbatim>\<open>choices\<close> when the
  configuration holds \<^verbatim>\<open>choices: None\<close>, and \<^verbatim>\<open>metavar\<close> (with \<^verbatim>\<open>options\<close> of a
  positional argument, which is the metavar) when it holds \<^verbatim>\<open>metavar: None\<close>. Every
  other field (\<^verbatim>\<open>is_positional\<close>, \<^verbatim>\<open>is_optional\<close>, \<^verbatim>\<open>is_variadic\<close>, \<^verbatim>\<open>description\<close>,
  \<^verbatim>\<open>python_type_name\<close>) is present with a value that is not \<^verbatim>\<open>None\<close>, or absent.
\<close>

theorem serialize_null_values:
  assumes "serialize LC a = Inr r" and "dict_get r k = Some PNone"
  shows "(k = py ''choices'' \<and> (py ''choices'', PNone) \<in> set (configuration a))
       \<or> ((k = py ''metavar'' \<or> k = py ''options'' \<and> aliases a = [])
           \<and> (py ''metavar'', PNone) \<in> set (configuration a))"
proof -
  from assms(1) obtain cfg result qualifiers result' where
    cfg: "lazy_configuration LC a = Inr cfg"
    and res: "options_fields a cfg = Inr result"
    and q: "qualifier_options (case dict_get cfg (py ''nargs'') of
              None \<Rightarrow> PQual SUPPRESS | Some v \<Rightarrow> v) = Inr qualifiers"
    and d: "description_field cfg (dict_update result qualifiers) = Inr result'"
    and r: "r = mirror_fields cfg (type_field cfg result')"
    by (rule serialize_Inr)
  from q obtain m where qm: "qualifiers = JSON_QUALIFIER_TO_OPTIONS m"
    by (blast dest: qualifier_options_Inr)
  have metavar: "dict_get cfg (py ''metavar'') = dict_get (configuration a) (py ''metavar'')"
    by (rule lazy_configuration_other [OF cfg]) simp_all
  from assms(2) consider
    (mirror) "(k, PNone) \<in> set (filter (\<lambda>(key, value). key \<in> set JSON_DIRECT_MIRROR_OPTIONS) cfg)"
    | (early) "dict_get (type_field cfg result') k = Some PNone"
    unfolding r mirror_fields_def by (blast dest: dict_get_update_SomeD)
  then show ?thesis
  proof cases
    case mirror
    then have k: "k = py ''choices'' \<or> k = py ''metavar''" and "(k, PNone) \<in> set cfg"
      by (auto simp: JSON_DIRECT_MIRROR_OPTIONS_def)
    then have "(k, PNone) \<in> set (configuration a)"
      using lazy_configuration_items [OF cfg, of k] by auto
    then show ?thesis using k by auto
  next
    case early
    then have "dict_get result' k = Some PNone"
      by (rule type_field_PNone)
    then have "dict_get (dict_update result qualifiers) k = Some PNone"
      by (rule description_field_PNone [OF d])
    then have "dict_get result k = Some PNone"
      by (cases m) (auto simp: qm dest!: dict_get_update_SomeD)
    then have "k = py ''options''" "aliases a = []" "dict_get cfg (py ''metavar'') = Some PNone"
      using options_fields_get [OF res, of k] by (auto split: if_splits)
    then show ?thesis using metavar by (auto dest: dict_get_SomeD)
  qed
qed

theorem serialize_null_values_witness:
  "serialize no_lazy_choices
     \<lparr>aliases = [], configuration = [(py ''metavar'', PNone)]\<rparr>
   = Inr [(py ''options'', PNone), (py ''is_positional'', PBool True), (py ''metavar'', PNone)]
   \<and> dict_get [(py ''options'', PNone), (py ''is_positional'', PBool True),
        (py ''metavar'', PNone)] (py ''options'') = Some PNone
   \<and> (py ''metavar'', PNone) \<in> set [(py ''metavar'', PNone)]"
proof -
  have h: "serialize no_lazy_choices
     \<lparr>aliases = [], configuration = [(py ''metavar'', PNone)]\<rparr>
   = Inr [(py ''options'', PNone), (py ''is_positional'', PBool True), (py ''metavar'', PNone)]"
    by (simp add: serialize_defs)
  have g: "dict_get [(py ''options'', PNone), (py ''is_positional'', PBool True),
        (py ''metavar'', PNone)] (py ''options'') = Some PNone"
    by (simp add: dict_get_def)
  show ?thesis
    using h g serialize_null_values [OF h g] by simp
qed

text \<open>
  An argument declared with \<^verbatim>\<open>metavar=None\<close>: the entry binds \<^verbatim>\<open>metavar\<close> to
  \<^verbatim>\<open>None\<close>.
\<close>

theorem serialize_null_counterexample:
  "serialize no_lazy_choices
     \<lparr>aliases = [py ''--raw''], configuration = [(py ''metavar'', PNone)]\<rparr>
   = Inr [(py ''options'', PList [PStr (py ''--raw'')]), (py ''metavar'', PNone)]
   \<and> dict_get [(py ''options'', PList [PStr (py ''--raw'')]), (py ''metavar'', PNone)]
       (py ''metavar'') = Some PNone"
  by (simp add: serialize_defs)

section \<open>Lazy choices and the cardinality lookup\<close>

lemma map_fst_dict_set:
  "map fst (dict_set d k v) = (if k \<in> fst ` set d then map fst d else map fst d @ [k])"
  by (induction d) (fastforce simp: image_iff)+

lemma distinct_dict_set:
  "distinct (map fst d) \<Longrightarrow> distinct (map fst (dict_set d k v))"
  by (simp add: map_fst_dict_set)

lemma distinct_dict_pop:
  "distinct (map fst d) \<Longrightarrow> distinct (map fst (snd (dict_pop d k dflt)))"
  by (simp add: dict_pop_def distinct_map_filter split: option.splits)

lemma map_of_rev_distinct:
  assumes "distinct (map fst xs)"
  shows "map_of (rev xs) k = map_of xs k"
proof -
  have "map fst (rev xs) = rev (map fst xs)"
    by (rule rev_map [symmetric])
  then have d: "distinct (map fst (rev xs))"
    using assms by (simp only: distinct_rev)
  show ?thesis
  proof (cases "map_of xs k")
    case None
    then have "k \<notin> fst ` set (rev xs)"
      by (simp add: map_of_eq_None_iff)
    then have "map_of (rev xs) k = None"
      by (rule map_of_eq_None_iff [THEN iffD2])
    then show ?thesis using None by simp
  next
    case (Some v)
    then have "(k, v) \<in> set (rev xs)"
      by (auto dest: map_of_SomeD)
    then have "map_of (rev xs) k = Some v"
      using d by (rule map_of_is_SomeI [rotated])
    then show ?thesis using Some by simp
  qed
qed

lemma map_of_filter_keys:
  "map_of (filter (\<lambda>(key, value). key \<in> K) xs) k = (if k \<in> K then map_of xs k else None)"
  by (induction xs) auto

lemma mirror_fields_get:
  assumes "distinct (map fst cfg)" and "k \<in> set JSON_DIRECT_MIRROR_OPTIONS"
  shows "dict_get (mirror_fields cfg r) k =
           (case dict_get cfg k of None \<Rightarrow> dict_get r k | Some v \<Rightarrow> Some v)"
proof -
  let ?m = "filter (\<lambda>(key, value). key \<in> set JSON_DIRECT_MIRROR_OPTIONS) cfg"
  have "distinct (map fst ?m)"
    using assms(1) by (rule distinct_map_filter)
  then have "map_of (rev ?m) k = map_of ?m k"
    by (rule map_of_rev_distinct)
  also have "\<dots> = map_of cfg k"
    using assms(2) by (simp add: map_of_filter_keys)
  finally have "map_of (rev ?m) k = dict_get cfg k"
    by (simp add: dict_get_def)
  then show ?thesis
    unfolding mirror_fields_def dict_get_update by simp
qed

text \<open>
  Claim C3. For an argument whose configuration has \<^verbatim>\<open>action='lazy_choices'\<close>, a
  \<^verbatim>\<open>serialize\<close> that returns has built the \<^verbatim>\<open>LazyChoices\<close> from the aliases and the
  rest of the configuration and called its \<^verbatim>\<open>load()\<close>; the entry's \<^verbatim>\<open>choices\<close> is the
  list of the loaded values and its \<^verbatim>\<open>description\<close> comes from the resolver's help
  (its first line, or no description when that help is empty, \<^verbatim>\<open>None\<close> or
  \<open>SUPPRESS\<close>), whatever \<^verbatim>\<open>choices\<close> and \<^verbatim>\<open>help\<close> the configuration declared.
  The configuration is a dictionary, so its keys are distinct.
\<close>

theorem serialize_lazy_choices:
  assumes "dict_get (configuration a) (py ''action'') = Some (PStr (py ''lazy_choices''))"
      and "distinct (map fst (configuration a))"
      and "serialize LC a = Inr r"
  shows "\<exists>choices loaded h.
           LC (aliases a)
             (dict_update [(py ''dest'', PNone)]
                (snd (dict_pop (configuration a) (py ''action'') PNone))) = Inr choices
         \<and> lc_load choices = Inr loaded
         \<and> lc_help choices = Inr h
         \<and> dict_get r (py ''choices'') = Some (PList loaded)
         \<and> (if truthy h \<and> h \<noteq> PQual SUPPRESS
            then \<exists>s l ls. h = PStr s \<and> splitlines (strip s) = l # ls
                   \<and> dict_get r (py ''description'') = Some (PStr l)
            else dict_get r (py ''description'') = None)"
proof -
  let ?cfg0 = "snd (dict_pop (configuration a) (py ''action'') PNone)"
  from assms(3) obtain cfg result qualifiers result' where
    cfg: "lazy_configuration LC a = Inr cfg"
    and r: "r = mirror_fields cfg (type_field cfg result')"
    by (rule serialize_Inr)
  obtain choices loaded h where
    lc: "LC (aliases a) (dict_update [(py ''dest'', PNone)] ?cfg0) = Inr choices"
    and ld: "lc_load choices = Inr loaded" and hp: "lc_help choices = Inr h"
    and cfg_eq: "cfg = dict_set (dict_set ?cfg0 (py ''choices'') (PList loaded)) (py ''help'') h"
    using lazy_configuration_lazy [OF assms(1) cfg] by blast
  have dist: "distinct (map fst cfg)"
    unfolding cfg_eq by (intro distinct_dict_set distinct_dict_pop assms(2))
  have cfg_choices: "dict_get cfg (py ''choices'') = Some (PList loaded)"
    by (simp add: cfg_eq dict_get_set)
  have cfg_help: "dict_get cfg (py ''help'') = Some h"
    by (simp add: cfg_eq dict_get_set)
  have "dict_get r (py ''choices'') = Some (PList loaded)"
    unfolding r using mirror_fields_get [OF dist, of "py ''choices''"] cfg_choices
    by (simp add: JSON_DIRECT_MIRROR_OPTIONS_def)
  moreover have "if truthy h \<and> h \<noteq> PQual SUPPRESS
            then \<exists>s l ls. h = PStr s \<and> splitlines (strip s) = l # ls
                   \<and> dict_get r (py ''description'') = Some (PStr l)
            else dict_get r (py ''description'') = None"
    using serialize_get_description [OF assms(3)] cfg cfg_help by auto
  ultimately show ?thesis using lc ld hp by blast
qed

theorem serialize_lazy_choices_witness:
  "dict_get [(py ''action'', PStr (py ''lazy_choices'')), (py ''choices'', PList []),
             (py ''help'', PStr (py ''Static help.''))] (py ''action'')
     = Some (PStr (py ''lazy_choices''))
   \<and> distinct (map fst [(py ''action'', PStr (py ''lazy_choices'')), (py ''choices'', PList []),
             (py ''help'', PStr (py ''Static help.''))])
   \<and> serialize two_choices
       \<lparr>aliases = [py ''--style''],
        configuration = [(py ''action'', PStr (py ''lazy_choices'')), (py ''choices'', PList []),
             (py ''help'', PStr (py ''Static help.''))]\<rparr>
     = Inr [(py ''options'', PList [PStr (py ''--style'')]),
            (py ''description'', PStr (py ''Styles.'')),
            (py ''choices'', PList [PStr (py ''auto''), PStr (py ''fruity'')])]
   \<and> dict_get [(py ''options'', PList [PStr (py ''--style'')]),
            (py ''description'', PStr (py ''Styles.'')),
            (py ''choices'', PList [PStr (py ''auto''), PStr (py ''fruity'')])] (py ''choices'')
     = Some (PList [PStr (py ''auto''), PStr (py ''fruity'')])"
proof -
  let ?a = "\<lparr>aliases = [py ''--style''],
        configuration = [(py ''action'', PStr (py ''lazy_choices'')), (py ''choices'', PList []),
             (py ''help'', PStr (py ''Static help.''))]\<rparr>"
  have a: "dict_get (configuration ?a) (py ''action'') = Some (PStr (py ''lazy_choices''))"
    by (simp add: dict_get_def)
  have d: "distinct (map fst (configuration ?a))"
    by simp
  have h: "serialize two_choices ?a
     = Inr [(py ''options'', PList [PStr (py ''--style'')]),
            (py ''description'', PStr (py ''Styles.'')),
            (py ''choices'', PList [PStr (py ''auto''), PStr (py ''fruity'')])]"
    by (simp add: serialize_defs two_choices_def)
  show ?thesis
    using a d h serialize_lazy_choices [OF a d h] by (simp add: two_choices_def)
qed

lemma serialize_nargs_qualifier:
  assumes "serialize LC a = Inr r"
  shows "dict_get (configuration a) (py ''nargs'') = None
       \<or> (\<exists>q. dict_get (configuration a) (py ''nargs'') = Some (PQual q))"
proof -
  obtain cfg q where cfg: "lazy_configuration LC a = Inr cfg"
    and q: "(case dict_get cfg (py ''nargs'') of None \<Rightarrow> PQual SUPPRESS | Some v \<Rightarrow> v) = PQual q"
    using serialize_get_early [OF assms, of "py ''nargs''"] by auto
  have "dict_get cfg (py ''nargs'') = dict_get (configuration a) (py ''nargs'')"
    by (rule lazy_configuration_other [OF cfg]) simp_all
  then show ?thesis using q by (auto split: option.splits)
qed

lemma qualifier_options_not_member:
  "\<forall>q. v \<noteq> PQual q \<Longrightarrow>
     qualifier_options v = Inl (if hashable v then KeyError v else TypeError)"
  by (cases v) (simp_all add: qualifier_options_def)

text \<open>
  Claim C10. \<^verbatim>\<open>Argument.serialize\<close> returns only when \<^verbatim>\<open>'nargs'\<close> is absent or a
  \<open>Qualifiers\<close> member. With \<^verbatim>\<open>'nargs'\<close> bound to any other value \<open>v\<close> it raises and
  produces no entry; when the steps before the table lookup succeed, the error is the
  one the lookup \<^verbatim>\<open>JSON_QUALIFIER_TO_OPTIONS[v]\<close> raises, \<^verbatim>\<open>KeyError(v)\<close> (for a list or
  a dictionary, which cannot be hashed, \<^verbatim>\<open>TypeError\<close>).
\<close>

theorem serialize_nargs_precondition:
  "(serialize LC a = Inr r \<longrightarrow>
      dict_get (configuration a) (py ''nargs'') = None
    \<or> (\<exists>q. dict_get (configuration a) (py ''nargs'') = Some (PQual q)))
   \<and> (dict_get (configuration a) (py ''nargs'') = Some v \<and> (\<forall>q. v \<noteq> PQual q) \<longrightarrow>
        (\<exists>e. serialize LC a = Inl e)
      \<and> (\<forall>cfg result.
            lazy_configuration LC a = Inr cfg \<and> options_fields a cfg = Inr result \<longrightarrow>
            serialize LC a = Inl (if hashable v then KeyError v else TypeError)))"
proof (intro conjI impI allI)
  assume "serialize LC a = Inr r"
  then show "dict_get (configuration a) (py ''nargs'') = None
    \<or> (\<exists>q. dict_get (configuration a) (py ''nargs'') = Some (PQual q))"
    by (rule serialize_nargs_qualifier)
next
  assume v: "dict_get (configuration a) (py ''nargs'') = Some v \<and> (\<forall>q. v \<noteq> PQual q)"
  show "\<exists>e. serialize LC a = Inl e"
  proof (cases "serialize LC a")
    case (Inl e)
    then show ?thesis by blast
  next
    case (Inr r')
    then show ?thesis using serialize_nargs_qualifier [OF Inr] v by auto
  qed
next
  fix cfg result
  assume v: "dict_get (configuration a) (py ''nargs'') = Some v \<and> (\<forall>q. v \<noteq> PQual q)"
    and pre: "lazy_configuration LC a = Inr cfg \<and> options_fields a cfg = Inr result"
  have "dict_get cfg (py ''nargs'') = dict_get (configuration a) (py ''nargs'')"
    using pre lazy_configuration_other [of LC a cfg "py ''nargs''"] by simp
  then have "dict_get cfg (py ''nargs'') = Some v" using v by simp
  then show "serialize LC a = Inl (if hashable v then KeyError v else TypeError)"
    using pre v qualifier_options_not_member [of v]
    by (simp add: serialize_def)
qed

theorem serialize_nargs_precondition_witness:
  "dict_get [(py ''nargs'', PStr (py ''+''))] (py ''nargs'') = Some (PStr (py ''+''))
   \<and> serialize no_lazy_choices
       \<lparr>aliases = [py ''--items''], configuration = [(py ''nargs'', PStr (py ''+''))]\<rparr>
     = Inl (KeyError (PStr (py ''+'')))"
proof -
  let ?a = "\<lparr>aliases = [py ''--items''], configuration = [(py ''nargs'', PStr (py ''+''))]\<rparr>"
  have n: "dict_get (configuration ?a) (py ''nargs'') = Some (PStr (py ''+''))
            \<and> (\<forall>q. PStr (py ''+'') \<noteq> PQual q)"
    by (simp add: dict_get_def)
  have pre: "lazy_configuration no_lazy_choices ?a = Inr [(py ''nargs'', PStr (py ''+''))]
        \<and> options_fields ?a [(py ''nargs'', PStr (py ''+''))]
            = Inr [(py ''options'', PList [PStr (py ''--items'')])]"
    by (simp add: lazy_configuration_def dict_pop_def options_fields_def)
  have "serialize no_lazy_choices ?a
          = Inl (if hashable (PStr (py ''+'')) then KeyError (PStr (py ''+'')) else TypeError)"
    using serialize_nargs_precondition [of no_lazy_choices ?a undefined "PStr (py ''+'')"] n pre
    by blast
  then show ?thesis using n by simp
qed

section \<open>The argument loop of the parser compiler\<close>

lemma map_qualifiers_argparse:
  "\<exists>cfg'. map_qualifiers cfg ARGPARSE_QUALIFIER_MAP = Inr cfg'"
proof (cases "map_qualifiers cfg ARGPARSE_QUALIFIER_MAP")
  case (Inl e)
  then obtain q where "ARGPARSE_QUALIFIER_MAP q = None"
    by (blast dest: map_qualifiers_Inl)
  then show ?thesis by (cases q) simp_all
next
  case (Inr cfg')
  then show ?thesis by blast
qed

lemma registered_add_argument_group [simp]:
  "registered (add_argument_group p t d) = registered p"
  by (simp add: registered_def add_argument_group_def)

lemma argument_groups_add_argument_group [simp]:
  "argument_groups (add_argument_group p t d) =
     argument_groups p @ [\<lparr>title = t, group_description = d, exclusive = None, actions = []\<rparr>]"
  by (simp add: add_argument_group_def)

lemma argument_groups_exclusive [simp]:
  "argument_groups (add_mutually_exclusive_group (add_argument_group p t d) required) =
     argument_groups p @
       [\<lparr>title = t, group_description = d, exclusive = Some required, actions = []\<rparr>]"
  by (simp add: add_mutually_exclusive_group_def)

lemma registered_exclusive [simp]:
  "registered (add_mutually_exclusive_group (add_argument_group p t d) required) = registered p"
  by (simp add: registered_def)

lemma parser_add_argument_Inr:
  assumes "parser_add_argument p als cfg = Inr p'"
  shows "set als \<inter> set (registered p) = {}"
    and "argument_groups p' =
           butlast (argument_groups p) @
           [(last (argument_groups p))
              \<lparr>actions := actions (last (argument_groups p)) @
                 [\<lparr>option_strings = als, settings = cfg\<rparr>]\<rparr>]"
proof -
  from assms have none: "filter (\<lambda>s. s \<in> set (registered p)) als = []"
    by (auto simp: parser_add_argument_def split: list.splits)
  then show "set als \<inter> set (registered p) = {}"
    by (auto simp: filter_empty_conv)
  show "argument_groups p' =
           butlast (argument_groups p) @
           [(last (argument_groups p))
              \<lparr>actions := actions (last (argument_groups p)) @
                 [\<lparr>option_strings = als, settings = cfg\<rparr>]\<rparr>]"
    using assms none by (auto simp: parser_add_argument_def)
qed

lemma parser_add_argument_Inl:
  "parser_add_argument p als cfg = Inl e \<Longrightarrow> \<exists>s. e = SpecificationError s"
  by (auto simp: parser_add_argument_def split: list.splits)

lemma registered_last:
  assumes "argument_groups p \<noteq> []"
      and "argument_groups p' =
             butlast (argument_groups p) @
             [(last (argument_groups p))
                \<lparr>actions := actions (last (argument_groups p)) @ new\<rparr>]"
  shows "registered p' = registered p @ concat (map option_strings new)"
proof -
  have "argument_groups p = butlast (argument_groups p) @ [last (argument_groups p)]"
    using assms(1) by simp
  then have "registered p =
      concat (map option_strings (concat (map actions (butlast (argument_groups p)))))
      @ concat (map option_strings (actions (last (argument_groups p))))"
    unfolding registered_def by (metis (no_types) append_Nil2 concat.simps concat_append list.map map_append)
  then show ?thesis
    by (simp add: registered_def assms(2))
qed

lemma to_argparse_arguments_Inr:
  assumes "to_argparse_arguments p as = Inr p'" and "argument_groups p \<noteq> []"
  shows "argument_groups p' =
           butlast (argument_groups p) @
           [(last (argument_groups p))
              \<lparr>actions := actions (last (argument_groups p)) @
                 map (\<lambda>a. \<lparr>option_strings = aliases a,
                            settings = projr (map_qualifiers (configuration a)
                                               ARGPARSE_QUALIFIER_MAP)\<rparr>) as\<rparr>]"
  using assms
proof (induction as arbitrary: p)
  case Nil
  then show ?case by simp
next
  case (Cons a as)
  from Cons.prems(1) obtain cfg p1 where
    cfg: "map_qualifiers (configuration a) ARGPARSE_QUALIFIER_MAP = Inr cfg"
    and p1: "parser_add_argument p (aliases a) cfg = Inr p1"
    and rest: "to_argparse_arguments p1 as = Inr p'"
    by (auto split: sum.splits)
  have g1: "argument_groups p1 =
           butlast (argument_groups p) @
           [(last (argument_groups p))
              \<lparr>actions := actions (last (argument_groups p)) @
                 [\<lparr>option_strings = aliases a, settings = cfg\<rparr>]\<rparr>]"
    by (rule parser_add_argument_Inr(2) [OF p1])
  then have ne: "argument_groups p1 \<noteq> []" by simp
  show ?case
    using Cons.IH [OF rest ne] by (simp add: g1 cfg)
qed

lemma to_argparse_arguments_disjoint:
  assumes "to_argparse_arguments p as = Inr p'" and "argument_groups p \<noteq> []"
  shows "registered p' = registered p @ concat (map aliases as)
       \<and> (\<forall>j < length as.
            set (aliases (as ! j))
              \<inter> set (registered p @ concat (map aliases (take j as))) = {})"
  using assms
proof (induction as arbitrary: p)
  case Nil
  then show ?case by simp
next
  case (Cons a as)
  from Cons.prems(1) obtain cfg p1 where
    p1: "parser_add_argument p (aliases a) cfg = Inr p1"
    and rest: "to_argparse_arguments p1 as = Inr p'"
    by (auto split: sum.splits)
  have g1: "argument_groups p1 =
           butlast (argument_groups p) @
           [(last (argument_groups p))
              \<lparr>actions := actions (last (argument_groups p)) @
                 [\<lparr>option_strings = aliases a, settings = cfg\<rparr>]\<rparr>]"
    by (rule parser_add_argument_Inr(2) [OF p1])
  then have ne: "argument_groups p1 \<noteq> []" by simp
  have r1: "registered p1 = registered p @ aliases a"
    using registered_last [OF Cons.prems(2) g1] by simp
  have fresh: "set (aliases a) \<inter> set (registered p) = {}"
    by (rule parser_add_argument_Inr(1) [OF p1])
  from Cons.IH [OF rest ne] have
    reg: "registered p' = registered p1 @ concat (map aliases as)"
    and dis: "\<And>j. j < length as \<Longrightarrow>
            set (aliases (as ! j))
              \<inter> set (registered p1 @ concat (map aliases (take j as))) = {}"
    by auto
  have "set (aliases ((a # as) ! j))
          \<inter> set (registered p @ concat (map aliases (take j (a # as)))) = {}"
    if "j < length (a # as)" for j
  proof (cases j)
    case 0
    then show ?thesis using fresh by simp
  next
    case (Suc j')
    then have "j' < length as" using that by simp
    from dis [OF this] show ?thesis by (simp add: Suc r1)
  qed
  then show ?case using reg by (simp add: r1)
qed

lemma to_argparse_arguments_Inl:
  "to_argparse_arguments p as = Inl e \<Longrightarrow> \<exists>s. e = SpecificationError s"
proof (induction as arbitrary: p)
  case Nil
  then show ?case by simp
next
  case (Cons a as)
  obtain cfg where cfg: "map_qualifiers (configuration a) ARGPARSE_QUALIFIER_MAP = Inr cfg"
    using map_qualifiers_argparse by blast
  show ?case
  proof (cases "parser_add_argument p (aliases a) cfg")
    case (Inl e')
    then have "e' = e" using Cons.prems cfg by simp
    then show ?thesis using parser_add_argument_Inl [OF Inl] by simp
  next
    case (Inr p1)
    then have "to_argparse_arguments p1 as = Inl e" using Cons.prems cfg by simp
    then show ?thesis by (rule Cons.IH)
  qed
qed

section \<open>The group loops of both compilers\<close>

lemma to_argparse_groups_step:
  "to_argparse_groups p (g # gs) =
     (case to_argparse_arguments
             (if is_mutually_exclusive g
              then add_mutually_exclusive_group
                     (add_argument_group p (name g) (description g)) False
              else add_argument_group p (name g) (description g))
             (arguments g) of
        Inl e \<Rightarrow> Inl e
      | Inr p' \<Rightarrow> to_argparse_groups p' gs)"
  by (simp add: Let_def)

lemma group_opened:
  fixes p g
  defines "p2 \<equiv> (if is_mutually_exclusive g
              then add_mutually_exclusive_group
                     (add_argument_group p (name g) (description g)) False
              else add_argument_group p (name g) (description g))"
  shows "argument_groups p2 =
           argument_groups p @
             [\<lparr>title = name g, group_description = description g,
               exclusive = (if is_mutually_exclusive g then Some False else None),
               actions = []\<rparr>]"
    and "registered p2 = registered p"
  by (simp_all add: p2_def)

lemma to_argparse_groups_Inr:
  assumes "to_argparse_groups p gs = Inr p'"
  shows "argument_groups p' =
           argument_groups p @
           map (\<lambda>g. \<lparr>title = name g, group_description = description g,
                      exclusive = (if is_mutually_exclusive g then Some False else None),
                      actions =
                        map (\<lambda>a. \<lparr>option_strings = aliases a,
                                   settings = projr (map_qualifiers (configuration a)
                                                      ARGPARSE_QUALIFIER_MAP)\<rparr>)
                          (arguments g)\<rparr>) gs"
  using assms
proof (induction gs arbitrary: p)
  case Nil
  then show ?case by simp
next
  case (Cons g gs)
  let ?p2 = "(if is_mutually_exclusive g
              then add_mutually_exclusive_group
                     (add_argument_group p (name g) (description g)) False
              else add_argument_group p (name g) (description g))"
  from Cons.prems obtain p3 where
    p3: "to_argparse_arguments ?p2 (arguments g) = Inr p3"
    and rest: "to_argparse_groups p3 gs = Inr p'"
    unfolding to_argparse_groups_step by (auto split: sum.splits)
  have g2: "argument_groups ?p2 =
           argument_groups p @
             [\<lparr>title = name g, group_description = description g,
               exclusive = (if is_mutually_exclusive g then Some False else None),
               actions = []\<rparr>]"
    by (rule group_opened(1))
  then have ne: "argument_groups ?p2 \<noteq> []" by simp
  have g3: "argument_groups p3 =
      argument_groups p @
        [\<lparr>title = name g, group_description = description g,
          exclusive = (if is_mutually_exclusive g then Some False else None),
          actions = map (\<lambda>a. \<lparr>option_strings = aliases a,
                                   settings = projr (map_qualifiers (configuration a)
                                                      ARGPARSE_QUALIFIER_MAP)\<rparr>)
                      (arguments g)\<rparr>]"
    unfolding to_argparse_arguments_Inr [OF p3 ne] g2 by simp
  show ?case
    unfolding Cons.IH [OF rest] g3 by simp
qed

lemma to_argparse_groups_disjoint:
  assumes "to_argparse_groups p gs = Inr p'"
  shows "registered p' = registered p @ concat (map aliases (concat (map arguments gs)))
       \<and> (\<forall>j < length (concat (map arguments gs)).
            set (aliases (concat (map arguments gs) ! j))
              \<inter> set (registered p
                      @ concat (map aliases (take j (concat (map arguments gs))))) = {})"
  using assms
proof (induction gs arbitrary: p)
  case Nil
  then show ?case by simp
next
  case (Cons g gs)
  let ?p2 = "(if is_mutually_exclusive g
              then add_mutually_exclusive_group
                     (add_argument_group p (name g) (description g)) False
              else add_argument_group p (name g) (description g))"
  let ?as = "arguments g"
  let ?rest = "concat (map arguments gs)"
  from Cons.prems obtain p3 where
    p3: "to_argparse_arguments ?p2 ?as = Inr p3"
    and rest: "to_argparse_groups p3 gs = Inr p'"
    unfolding to_argparse_groups_step by (auto split: sum.splits)
  have "argument_groups ?p2 =
           argument_groups p @
             [\<lparr>title = name g, group_description = description g,
               exclusive = (if is_mutually_exclusive g then Some False else None),
               actions = []\<rparr>]"
    by (rule group_opened(1))
  then have ne: "argument_groups ?p2 \<noteq> []" by simp
  have r2: "registered ?p2 = registered p"
    by (rule group_opened(2))
  from to_argparse_arguments_disjoint [OF p3 ne] have
    r3: "registered p3 = registered p @ concat (map aliases ?as)"
    and d3: "\<And>j. j < length ?as \<Longrightarrow>
            set (aliases (?as ! j)) \<inter> set (registered p @ concat (map aliases (take j ?as))) = {}"
    unfolding r2 by auto
  from Cons.IH [OF rest] have
    r': "registered p' = registered p3 @ concat (map aliases ?rest)"
    and d': "\<And>j. j < length ?rest \<Longrightarrow>
            set (aliases (?rest ! j))
              \<inter> set (registered p3 @ concat (map aliases (take j ?rest))) = {}"
    by auto
  have "set (aliases ((?as @ ?rest) ! j))
          \<inter> set (registered p @ concat (map aliases (take j (?as @ ?rest)))) = {}"
    if j: "j < length (?as @ ?rest)" for j
  proof (cases "j < length ?as")
    case True
    then show ?thesis using d3 [OF True] by (simp add: nth_append)
  next
    case False
    then have "j - length ?as < length ?rest" using j by simp
    from d' [OF this] show ?thesis using False by (simp add: nth_append r3)
  qed
  then show ?case using r' by (simp add: r3)
qed

lemma to_argparse_groups_Inl:
  "to_argparse_groups p gs = Inl e \<Longrightarrow> \<exists>s. e = SpecificationError s"
proof (induction gs arbitrary: p)
  case Nil
  then show ?case by simp
next
  case (Cons g gs)
  let ?p2 = "(if is_mutually_exclusive g
              then add_mutually_exclusive_group
                     (add_argument_group p (name g) (description g)) False
              else add_argument_group p (name g) (description g))"
  show ?case
  proof (cases "to_argparse_arguments ?p2 (arguments g)")
    case (Inl e')
    then have "e' = e" using Cons.prems unfolding to_argparse_groups_step by simp
    then show ?thesis using to_argparse_arguments_Inl [OF Inl] by simp
  next
    case (Inr p3)
    then have "to_argparse_groups p3 gs = Inl e"
      using Cons.prems unfolding to_argparse_groups_step by simp
    then show ?thesis by (rule Cons.IH)
  qed
qed

lemma serialize_arguments_Inr:
  "serialize_arguments LC as = Inr ds \<Longrightarrow>
     list_all2 (\<lambda>a d. \<exists>e. serialize LC a = Inr e \<and> d = PDict e) as ds"
proof (induction as arbitrary: ds)
  case Nil
  then show ?case by simp
next
  case (Cons a as)
  from Cons.prems obtain e rest where
    "serialize LC a = Inr e" "serialize_arguments LC as = Inr rest" "ds = PDict e # rest"
    by (auto split: sum.splits)
  then show ?case using Cons.IH [of rest] by simp
qed

lemma Group_serialize_Inr:
  assumes "Group_serialize LC g = Inr d"
  shows "\<exists>args. dict_get d (py ''name'') = Some (PStr (name g))
           \<and> dict_get d (py ''args'') = Some (PList args)
           \<and> length args = length (arguments g)
           \<and> (\<forall>j < length args.
                 \<exists>e. serialize LC (arguments g ! j) = Inr e \<and> args ! j = PDict e)"
proof -
  from assms obtain args where
    args: "serialize_arguments LC (arguments g) = Inr args"
    and d: "d = [(py ''name'', PStr (name g)),
               (py ''description'', PStr (description g)),
               (py ''is_mutually_exclusive'', PBool (is_mutually_exclusive g)),
               (py ''args'', PList args)]"
    by (auto simp: Group_serialize_def split: sum.splits)
  have all: "list_all2 (\<lambda>a d. \<exists>e. serialize LC a = Inr e \<and> d = PDict e) (arguments g) args"
    by (rule serialize_arguments_Inr [OF args])
  then have len: "length (arguments g) = length args"
    by (rule list_all2_lengthD)
  have "\<exists>e. serialize LC (arguments g ! j) = Inr e \<and> args ! j = PDict e"
    if "j < length args" for j
    using list_all2_nthD2 [OF all that] by simp
  then show ?thesis using len by (simp add: d dict_get_def)
qed

lemma serialize_groups_Inr:
  "serialize_groups LC gs = Inr ds \<Longrightarrow>
     list_all2 (\<lambda>g d. \<exists>e. Group_serialize LC g = Inr e \<and> d = PDict e) gs ds"
proof (induction gs arbitrary: ds)
  case Nil
  then show ?case by simp
next
  case (Cons g gs)
  from Cons.prems obtain e rest where
    "Group_serialize LC g = Inr e" "serialize_groups LC gs = Inr rest" "ds = PDict e # rest"
    by (auto split: sum.splits)
  then show ?case using Cons.IH [of rest] by simp
qed

lemma to_json_Inr:
  assumes "to_json LC spec = Inr doc"
  shows "\<exists>s gs. dict_get doc (py ''spec'') = Some (PDict s)
           \<and> dict_get s (py ''groups'') = Some (PList gs)
           \<and> length gs = length (groups spec)
           \<and> (\<forall>i < length (groups spec).
                 \<exists>d args. gs ! i = PDict d
                   \<and> dict_get d (py ''name'') = Some (PStr (name (groups spec ! i)))
                   \<and> dict_get d (py ''args'') = Some (PList args)
                   \<and> length args = length (arguments (groups spec ! i))
                   \<and> (\<forall>j < length args.
                         \<exists>e. serialize LC (arguments (groups spec ! i) ! j) = Inr e
                           \<and> args ! j = PDict e))"
proof -
  from assms obtain s where s: "ParserSpec_serialize LC spec = Inr s"
    and doc: "doc = [(py ''version'', PStr PARSER_SPEC_VERSION), (py ''spec'', PDict s)]"
    by (auto simp: to_json_def split: sum.splits)
  from s obtain gs where gs: "serialize_groups LC (groups spec) = Inr gs"
    and s_eq: "s = [(py ''name'', PStr (program spec)),
               (py ''description'', PStr (spec_description spec)),
               (py ''groups'', PList gs)]"
    by (auto simp: ParserSpec_serialize_def split: sum.splits)
  have all: "list_all2 (\<lambda>g d. \<exists>e. Group_serialize LC g = Inr e \<and> d = PDict e) (groups spec) gs"
    by (rule serialize_groups_Inr [OF gs])
  then have len: "length (groups spec) = length gs"
    by (rule list_all2_lengthD)
  have each: "\<exists>d args. gs ! i = PDict d
                   \<and> dict_get d (py ''name'') = Some (PStr (name (groups spec ! i)))
                   \<and> dict_get d (py ''args'') = Some (PList args)
                   \<and> length args = length (arguments (groups spec ! i))
                   \<and> (\<forall>j < length args.
                         \<exists>e. serialize LC (arguments (groups spec ! i) ! j) = Inr e
                           \<and> args ! j = PDict e)"
    if i: "i < length (groups spec)" for i
  proof -
    obtain d where d: "Group_serialize LC (groups spec ! i) = Inr d" and "gs ! i = PDict d"
      using list_all2_nthD [OF all i] by blast
    then show ?thesis using Group_serialize_Inr [OF d] by blast
  qed
  have "dict_get doc (py ''spec'') = Some (PDict s)"
    by (simp add: doc dict_get_def)
  moreover have "dict_get s (py ''groups'') = Some (PList gs)"
    by (simp add: s_eq dict_get_def)
  ultimately show ?thesis using len each by auto
qed

section \<open>Order, mutual exclusion and duplicate aliases\<close>

lemma to_argparse_Inr:
  assumes "to_argparse spec = Inr p"
  shows "argument_groups p =
           map (\<lambda>g. \<lparr>title = name g, group_description = description g,
                      exclusive = (if is_mutually_exclusive g then Some False else None),
                      actions =
                        map (\<lambda>a. \<lparr>option_strings = aliases a,
                                   settings = projr (map_qualifiers (configuration a)
                                                      ARGPARSE_QUALIFIER_MAP)\<rparr>)
                          (arguments g)\<rparr>) (groups spec)"
  using to_argparse_groups_Inr [OF assms [unfolded to_argparse_def]]
  by (simp add: register_def create_parser_def)

lemma to_argparse_group:
  assumes "to_argparse spec = Inr p" and "i < length (groups spec)"
  shows "title (argument_groups p ! i) = name (groups spec ! i)"
    and "exclusive (argument_groups p ! i) =
           (if is_mutually_exclusive (groups spec ! i) then Some False else None)"
    and "map option_strings (actions (argument_groups p ! i)) =
           map aliases (arguments (groups spec ! i))"
  using assms(2) unfolding to_argparse_Inr [OF assms(1)] by (simp_all add: comp_def)

lemma to_argparse_action:
  assumes "to_argparse spec = Inr p" and "i < length (groups spec)"
  shows "group_description (argument_groups p ! i) = description (groups spec ! i)"
    and "length (actions (argument_groups p ! i)) = length (arguments (groups spec ! i))"
    and "j < length (arguments (groups spec ! i)) \<Longrightarrow>
           option_strings (actions (argument_groups p ! i) ! j) =
             aliases (arguments (groups spec ! i) ! j)"
    and "j < length (arguments (groups spec ! i)) \<Longrightarrow>
           map_qualifiers (configuration (arguments (groups spec ! i) ! j))
             ARGPARSE_QUALIFIER_MAP =
           Inr (settings (actions (argument_groups p ! i) ! j))"
proof -
  show "group_description (argument_groups p ! i) = description (groups spec ! i)"
    using assms(2) unfolding to_argparse_Inr [OF assms(1)] by simp
  show "length (actions (argument_groups p ! i)) = length (arguments (groups spec ! i))"
    using assms(2) unfolding to_argparse_Inr [OF assms(1)] by simp
  show "option_strings (actions (argument_groups p ! i) ! j) =
             aliases (arguments (groups spec ! i) ! j)"
    if "j < length (arguments (groups spec ! i))"
    using assms(2) that unfolding to_argparse_Inr [OF assms(1)] by simp
  show "map_qualifiers (configuration (arguments (groups spec ! i) ! j))
             ARGPARSE_QUALIFIER_MAP =
           Inr (settings (actions (argument_groups p ! i) ! j))"
    if j: "j < length (arguments (groups spec ! i))"
  proof -
    obtain cfg where cfg:
      "map_qualifiers (configuration (arguments (groups spec ! i) ! j))
         ARGPARSE_QUALIFIER_MAP = Inr cfg"
      using map_qualifiers_argparse by blast
    have "settings (actions (argument_groups p ! i) ! j) = cfg"
      using assms(2) j unfolding to_argparse_Inr [OF assms(1)] by (simp add: cfg)
    then show ?thesis using cfg by simp
  qed
qed

lemmas parser_defs =
  to_argparse_def create_parser_def register_def add_argument_group_def
  add_mutually_exclusive_group_def parser_add_argument_def registered_def map_qualifier_def
  Let_def

lemmas builder_defs =
  style_spec_def clash_spec_def new_group_def add_argument_to_def add_argument_def

text \<open>
  Claim C4. \<^verbatim>\<open>new_group\<close> and \<^verbatim>\<open>add_argument\<close> append, so the lists of a
  specification are in declaration order. A schema document that \<^verbatim>\<open>to_json\<close> returns
  lists one entry per group in the order of \<^verbatim>\<open>groups\<close> and, in each, one entry per
  argument in the order of \<^verbatim>\<open>arguments\<close>, each the serialization of that argument; a
  parser that \<^verbatim>\<open>to_argparse\<close> returns has the groups in the same order, with their
  titles and descriptions, and in each group the arguments in the same order: the
  \<open>j\<close>-th registration carries the aliases of the \<open>j\<close>-th declared argument and its
  configuration with the qualifiers mapped, so positional arguments, which have no
  alias, keep their order too.
\<close>

theorem compilers_preserve_order:
  "groups (new_group spec n d m) =
     groups spec @ [\<lparr>name = n, description = d, is_mutually_exclusive = m, arguments = []\<rparr>]
   \<and> arguments (add_argument g args kwargs) =
       arguments g @ [\<lparr>aliases = args, configuration = kwargs\<rparr>]
   \<and> (k < length (groups spec) \<longrightarrow>
        (\<exists>spec'. add_argument_to spec k args kwargs = Inr spec'
           \<and> map name (groups spec') = map name (groups spec)
           \<and> arguments (groups spec' ! k) =
               arguments (groups spec ! k) @ [\<lparr>aliases = args, configuration = kwargs\<rparr>]
           \<and> (\<forall>i < length (groups spec). i \<noteq> k \<longrightarrow> groups spec' ! i = groups spec ! i)))
   \<and> (to_json LC spec = Inr doc \<longrightarrow>
        (\<exists>s gs. dict_get doc (py ''spec'') = Some (PDict s)
           \<and> dict_get s (py ''groups'') = Some (PList gs)
           \<and> length gs = length (groups spec)
           \<and> (\<forall>i < length (groups spec).
                 \<exists>d args. gs ! i = PDict d
                   \<and> dict_get d (py ''name'') = Some (PStr (name (groups spec ! i)))
                   \<and> dict_get d (py ''args'') = Some (PList args)
                   \<and> length args = length (arguments (groups spec ! i))
                   \<and> (\<forall>j < length args.
                         \<exists>e. serialize LC (arguments (groups spec ! i) ! j) = Inr e
                           \<and> args ! j = PDict e))))
   \<and> (to_argparse spec = Inr p \<longrightarrow>
        length (argument_groups p) = length (groups spec)
      \<and> (\<forall>i < length (groups spec).
            title (argument_groups p ! i) = name (groups spec ! i)
          \<and> group_description (argument_groups p ! i) = description (groups spec ! i)
          \<and> map option_strings (actions (argument_groups p ! i)) =
              map aliases (arguments (groups spec ! i))
          \<and> length (actions (argument_groups p ! i)) =
              length (arguments (groups spec ! i))
          \<and> (\<forall>j < length (arguments (groups spec ! i)).
                option_strings (actions (argument_groups p ! i) ! j) =
                  aliases (arguments (groups spec ! i) ! j)
              \<and> map_qualifiers (configuration (arguments (groups spec ! i) ! j))
                  ARGPARSE_QUALIFIER_MAP =
                  Inr (settings (actions (argument_groups p ! i) ! j)))))"
proof (intro conjI impI)
  show "groups (new_group spec n d m) =
     groups spec @ [\<lparr>name = n, description = d, is_mutually_exclusive = m, arguments = []\<rparr>]"
    by (simp add: new_group_def)
  show "arguments (add_argument g args kwargs) =
       arguments g @ [\<lparr>aliases = args, configuration = kwargs\<rparr>]"
    by (simp add: add_argument_def)
next
  assume k: "k < length (groups spec)"
  let ?spec' = "spec\<lparr>groups := (groups spec)[k := add_argument (groups spec ! k) args kwargs]\<rparr>"
  have "(map name (groups spec))[k := name (groups spec ! k)] = map name (groups spec)"
    using k by (metis list_update_id nth_map)
  then have names: "map name (groups ?spec') = map name (groups spec)"
    by (simp add: add_argument_def map_update)
  have "add_argument_to spec k args kwargs = Inr ?spec'"
    using k by (simp add: add_argument_to_def)
  moreover have "arguments (groups ?spec' ! k) =
               arguments (groups spec ! k) @ [\<lparr>aliases = args, configuration = kwargs\<rparr>]"
    using k by (simp add: add_argument_def)
  moreover have "\<forall>i < length (groups spec). i \<noteq> k \<longrightarrow> groups ?spec' ! i = groups spec ! i"
    by simp
  ultimately show "\<exists>spec'. add_argument_to spec k args kwargs = Inr spec'
           \<and> map name (groups spec') = map name (groups spec)
           \<and> arguments (groups spec' ! k) =
               arguments (groups spec ! k) @ [\<lparr>aliases = args, configuration = kwargs\<rparr>]
           \<and> (\<forall>i < length (groups spec). i \<noteq> k \<longrightarrow> groups spec' ! i = groups spec ! i)"
    using names by blast
next
  assume "to_json LC spec = Inr doc"
  then show "\<exists>s gs. dict_get doc (py ''spec'') = Some (PDict s)
           \<and> dict_get s (py ''groups'') = Some (PList gs)
           \<and> length gs = length (groups spec)
           \<and> (\<forall>i < length (groups spec).
                 \<exists>d args. gs ! i = PDict d
                   \<and> dict_get d (py ''name'') = Some (PStr (name (groups spec ! i)))
                   \<and> dict_get d (py ''args'') = Some (PList args)
                   \<and> length args = length (arguments (groups spec ! i))
                   \<and> (\<forall>j < length args.
                         \<exists>e. serialize LC (arguments (groups spec ! i) ! j) = Inr e
                           \<and> args ! j = PDict e))"
    by (rule to_json_Inr)
next
  assume p: "to_argparse spec = Inr p"
  show "length (argument_groups p) = length (groups spec)"
    by (simp add: to_argparse_Inr [OF p])
  show "\<forall>i < length (groups spec).
            title (argument_groups p ! i) = name (groups spec ! i)
          \<and> group_description (argument_groups p ! i) = description (groups spec ! i)
          \<and> map option_strings (actions (argument_groups p ! i)) =
              map aliases (arguments (groups spec ! i))
          \<and> length (actions (argument_groups p ! i)) =
              length (arguments (groups spec ! i))
          \<and> (\<forall>j < length (arguments (groups spec ! i)).
                option_strings (actions (argument_groups p ! i) ! j) =
                  aliases (arguments (groups spec ! i) ! j)
              \<and> map_qualifiers (configuration (arguments (groups spec ! i) ! j))
                  ARGPARSE_QUALIFIER_MAP =
                  Inr (settings (actions (argument_groups p ! i) ! j)))"
  proof (intro allI impI conjI)
    fix i
    assume i: "i < length (groups spec)"
    show "title (argument_groups p ! i) = name (groups spec ! i)"
      by (rule to_argparse_group(1) [OF p i])
    show "group_description (argument_groups p ! i) = description (groups spec ! i)"
      by (rule to_argparse_action(1) [OF p i])
    show "map option_strings (actions (argument_groups p ! i)) =
              map aliases (arguments (groups spec ! i))"
      by (rule to_argparse_group(3) [OF p i])
    show "length (actions (argument_groups p ! i)) = length (arguments (groups spec ! i))"
      by (rule to_argparse_action(2) [OF p i])
    fix j
    assume j: "j < length (arguments (groups spec ! i))"
    show "option_strings (actions (argument_groups p ! i) ! j) =
                  aliases (arguments (groups spec ! i) ! j)"
      by (rule to_argparse_action(3) [OF p i j])
    show "map_qualifiers (configuration (arguments (groups spec ! i) ! j))
                  ARGPARSE_QUALIFIER_MAP =
                  Inr (settings (actions (argument_groups p ! i) ! j))"
      by (rule to_argparse_action(4) [OF p i j])
  qed
qed

theorem compilers_preserve_order_witness:
  "add_argument_to
     (new_group \<lparr>program = py ''http'', spec_description = [], epilog = [], groups = []\<rparr>
        (py ''Output'') [] True)
     0 [py ''--raw''] []
   = Inr \<lparr>program = py ''http'', spec_description = [], epilog = [],
          groups = [\<lparr>name = py ''Output'', description = [], is_mutually_exclusive = True,
                     arguments = [\<lparr>aliases = [py ''--raw''], configuration = []\<rparr>]\<rparr>]\<rparr>
   \<and> (\<exists>p. to_argparse style_spec = Inr p
      \<and> map title (argument_groups p) = [py ''Output'', py ''Positional'']
      \<and> map option_strings (actions (argument_groups p ! 0))
          = [[py ''--raw''], [py ''--form'', py ''-f'']])
   \<and> (\<exists>p. to_argparse positional_spec = Inr p
      \<and> settings (actions (argument_groups p ! 0) ! 0)
          = [(py ''metavar'', PStr (py ''METHOD'')), (py ''nargs'', PStr (py ''?''))]
      \<and> settings (actions (argument_groups p ! 0) ! 1)
          = [(py ''metavar'', PStr (py ''URL''))])
   \<and> (\<exists>doc s gs. to_json no_lazy_choices style_spec = Inr doc
      \<and> dict_get doc (py ''spec'') = Some (PDict s)
      \<and> dict_get s (py ''groups'') = Some (PList gs) \<and> length gs = 2)"
proof -
  have g: "groups style_spec =
      [\<lparr>name = py ''Output'', description = [], is_mutually_exclusive = True,
        arguments = [\<lparr>aliases = [py ''--raw''], configuration = [(py ''nargs'', PQual OPTIONAL)]\<rparr>,
                     \<lparr>aliases = [py ''--form'', py ''-f''], configuration = []\<rparr>]\<rparr>,
       \<lparr>name = py ''Positional'', description = [], is_mutually_exclusive = False,
        arguments = [\<lparr>aliases = [], configuration = [(py ''metavar'', PStr (py ''URL''))]\<rparr>]\<rparr>]"
    by (simp add: builder_defs)
  have g': "groups positional_spec =
      [\<lparr>name = py ''Positional arguments'', description = [], is_mutually_exclusive = False,
        arguments =
          [\<lparr>aliases = [],
            configuration = [(py ''metavar'', PStr (py ''METHOD'')),
                             (py ''nargs'', PQual OPTIONAL)]\<rparr>,
           \<lparr>aliases = [], configuration = [(py ''metavar'', PStr (py ''URL''))]\<rparr>]\<rparr>]"
    by (simp add: positional_spec_def)
  obtain p where p: "to_argparse style_spec = Inr p"
    by (simp add: parser_defs g)
  obtain p' where p': "to_argparse positional_spec = Inr p'"
    by (simp add: parser_defs g')
  obtain doc where doc: "to_json no_lazy_choices style_spec = Inr doc"
    by (simp add: to_json_def ParserSpec_serialize_def Group_serialize_def g serialize_defs)
  have order: "length (argument_groups p) = length (groups style_spec)
      \<and> (\<forall>i < length (groups style_spec).
            title (argument_groups p ! i) = name (groups style_spec ! i)
          \<and> map option_strings (actions (argument_groups p ! i)) =
              map aliases (arguments (groups style_spec ! i)))"
    and schema: "\<exists>s gs. dict_get doc (py ''spec'') = Some (PDict s)
           \<and> dict_get s (py ''groups'') = Some (PList gs)
           \<and> length gs = length (groups style_spec)"
    using compilers_preserve_order [of style_spec _ _ _ _ _ _ _ no_lazy_choices doc p] p doc
    by blast+
  have positional: "\<forall>j < length (arguments (groups positional_spec ! 0)).
        map_qualifiers (configuration (arguments (groups positional_spec ! 0) ! j))
          ARGPARSE_QUALIFIER_MAP =
        Inr (settings (actions (argument_groups p' ! 0) ! j))"
    using compilers_preserve_order [of positional_spec _ _ _ _ _ _ _ no_lazy_choices _ p'] p'
    by (simp add: g')
  have "settings (actions (argument_groups p' ! 0) ! 0)
          = [(py ''metavar'', PStr (py ''METHOD'')), (py ''nargs'', PStr (py ''?''))]"
    using positional [rule_format, of 0] by (simp add: g' map_qualifier_def)
  moreover have "settings (actions (argument_groups p' ! 0) ! 1)
          = [(py ''metavar'', PStr (py ''URL''))]"
    using positional [rule_format, of 1] by (simp add: g' map_qualifier_def)
  moreover have "map title (argument_groups p) = [py ''Output'', py ''Positional'']"
    using order by (auto simp: g intro!: nth_equalityI simp: less_Suc_eq)
  moreover have "map option_strings (actions (argument_groups p ! 0))
          = [[py ''--raw''], [py ''--form'', py ''-f'']]"
    using order by (simp add: g)
  moreover have "add_argument_to
     (new_group \<lparr>program = py ''http'', spec_description = [], epilog = [], groups = []\<rparr>
        (py ''Output'') [] True)
     0 [py ''--raw''] []
   = Inr \<lparr>program = py ''http'', spec_description = [], epilog = [],
          groups = [\<lparr>name = py ''Output'', description = [], is_mutually_exclusive = True,
                     arguments = [\<lparr>aliases = [py ''--raw''], configuration = []\<rparr>]\<rparr>]\<rparr>"
    by (simp add: new_group_def add_argument_to_def add_argument_def)
  ultimately show ?thesis using p p' doc schema by (auto simp: g)
qed

text \<open>
  Claim C7. For a group with \<^verbatim>\<open>is_mutually_exclusive\<close>, a parser that \<^verbatim>\<open>to_argparse\<close>
  returns holds the group's arguments in a mutual-exclusion construct made with
  \<^verbatim>\<open>required=False\<close>, and the construct rejects an invocation exactly when it supplies
  two or more of the group's arguments: one alone, or none, passes.
\<close>

theorem mutually_exclusive_group_compiled:
  assumes "to_argparse spec = Inr p"
      and "i < length (groups spec)"
      and "is_mutually_exclusive (groups spec ! i)"
  shows "exclusive (argument_groups p ! i) = Some False
       \<and> map option_strings (actions (argument_groups p ! i)) =
           map aliases (arguments (groups spec ! i))
       \<and> (exclusion_rejects (argument_groups p ! i) supplied \<longleftrightarrow>
            2 \<le> length (filter supplied [0..<length (arguments (groups spec ! i))]))"
proof -
  have ex: "exclusive (argument_groups p ! i) = Some False"
    using to_argparse_group(2) [OF assms(1,2)] assms(3) by simp
  have acts: "map option_strings (actions (argument_groups p ! i)) =
           map aliases (arguments (groups spec ! i))"
    by (rule to_argparse_group(3) [OF assms(1,2)])
  then have "length (actions (argument_groups p ! i)) = length (arguments (groups spec ! i))"
    by (rule map_eq_imp_length_eq)
  then have "exclusion_rejects (argument_groups p ! i) supplied \<longleftrightarrow>
            2 \<le> length (filter supplied [0..<length (arguments (groups spec ! i))])"
    by (auto simp: exclusion_rejects_def supplied_count_def ex)
  then show ?thesis using ex acts by blast
qed

theorem mutually_exclusive_group_compiled_witness:
  "\<exists>p. to_argparse style_spec = Inr p
      \<and> is_mutually_exclusive (groups style_spec ! 0)
      \<and> exclusive (argument_groups p ! 0) = Some False
      \<and> exclusion_rejects (argument_groups p ! 0) (\<lambda>j. True)
      \<and> \<not> exclusion_rejects (argument_groups p ! 0) (\<lambda>j. j = 1)
      \<and> \<not> exclusion_rejects (argument_groups p ! 0) (\<lambda>j. False)"
proof -
  have g: "groups style_spec =
      [\<lparr>name = py ''Output'', description = [], is_mutually_exclusive = True,
        arguments = [\<lparr>aliases = [py ''--raw''], configuration = [(py ''nargs'', PQual OPTIONAL)]\<rparr>,
                     \<lparr>aliases = [py ''--form'', py ''-f''], configuration = []\<rparr>]\<rparr>,
       \<lparr>name = py ''Positional'', description = [], is_mutually_exclusive = False,
        arguments = [\<lparr>aliases = [], configuration = [(py ''metavar'', PStr (py ''URL''))]\<rparr>]\<rparr>]"
    by (simp add: builder_defs)
  obtain p where p: "to_argparse style_spec = Inr p"
    by (simp add: parser_defs g)
  have i: "0 < length (groups style_spec)" and m: "is_mutually_exclusive (groups style_spec ! 0)"
    by (simp_all add: g)
  have two: "[0..<length (arguments (groups style_spec ! 0))] = [0, 1]"
    by (simp add: g upt_rec)
  show ?thesis
    using p m
      mutually_exclusive_group_compiled [OF p i m, of "\<lambda>j. True"]
      mutually_exclusive_group_compiled [OF p i m, of "\<lambda>j. j = 1"]
      mutually_exclusive_group_compiled [OF p i m, of "\<lambda>j. False"]
    unfolding two by auto
qed

text \<open>
  Claim C8. When two arguments of a specification, in the same group or in different
  groups, share an alias, \<^verbatim>\<open>to_argparse\<close> raises \<open>SpecificationError\<close> and returns no
  parser.
\<close>

theorem duplicate_alias_rejected:
  assumes "i < j"
      and "j < length (concat (map arguments (groups spec)))"
      and "s \<in> set (aliases (concat (map arguments (groups spec)) ! i))"
      and "s \<in> set (aliases (concat (map arguments (groups spec)) ! j))"
  shows "\<exists>s'. to_argparse spec = Inl (SpecificationError s')"
proof (cases "to_argparse spec")
  case (Inl e)
  then show ?thesis
    using to_argparse_groups_Inl [of _ "groups spec" e] by (auto simp: to_argparse_def)
next
  case (Inr p)
  let ?all = "concat (map arguments (groups spec))"
  have "set (aliases (?all ! j))
          \<inter> set (registered (register
                   (create_parser (program spec) (spec_description spec) (epilog spec))
                   (py ''action'') (py ''lazy_choices''))
                 @ concat (map aliases (take j ?all))) = {}"
    using to_argparse_groups_disjoint [OF Inr [unfolded to_argparse_def]] assms(2) by blast
  then have no: "s \<notin> set (concat (map aliases (take j ?all)))"
    using assms(4) by auto
  have "?all ! i \<in> set (take j ?all)"
    using assms(1,2) by (metis in_set_conv_nth length_take min.absorb2 nat_less_le nth_take)
  then have "s \<in> set (concat (map aliases (take j ?all)))"
    using assms(3) by auto
  then show ?thesis using no by contradiction
qed

theorem duplicate_alias_rejected_witness:
  "py ''-f'' \<in> set (aliases (concat (map arguments (groups clash_spec)) ! 1))
   \<and> py ''-f'' \<in> set (aliases (concat (map arguments (groups clash_spec)) ! 3))
   \<and> to_argparse clash_spec = Inl (SpecificationError (py ''-f''))"
proof -
  have g: "groups clash_spec =
      [\<lparr>name = py ''Output'', description = [], is_mutually_exclusive = True,
        arguments = [\<lparr>aliases = [py ''--raw''], configuration = [(py ''nargs'', PQual OPTIONAL)]\<rparr>,
                     \<lparr>aliases = [py ''--form'', py ''-f''], configuration = []\<rparr>]\<rparr>,
       \<lparr>name = py ''Positional'', description = [], is_mutually_exclusive = False,
        arguments = [\<lparr>aliases = [], configuration = [(py ''metavar'', PStr (py ''URL''))]\<rparr>]\<rparr>,
       \<lparr>name = py ''Files'', description = [], is_mutually_exclusive = False,
        arguments = [\<lparr>aliases = [py ''--file'', py ''-f''], configuration = []\<rparr>]\<rparr>]"
    by (simp add: builder_defs)
  have a: "(1::nat) < 3" by simp
  have b: "3 < length (concat (map arguments (groups clash_spec)))"
    by (simp add: g)
  have c: "py ''-f'' \<in> set (aliases (concat (map arguments (groups clash_spec)) ! 1))"
    by (simp add: g)
  have d: "py ''-f'' \<in> set (aliases (concat (map arguments (groups clash_spec)) ! 3))"
    by (simp add: g)
  obtain s' where "to_argparse clash_spec = Inl (SpecificationError s')"
    using duplicate_alias_rejected [OF a b c d] by blast
  moreover have "to_argparse clash_spec = Inl (SpecificationError (py ''-f''))"
    by (simp add: parser_defs g)
  ultimately show ?thesis using c d by simp
qed

end
